theory Spec2Isabelle
  imports
    Main
    "HOL-Library.Char_ord"
    "HOL-Library.List_Lexorder"
    "HOL-Library.Product_Lexorder"
    "HOL-Library.AList"
begin

section \<open>Schema introspection and DDL synthesis (aws\_db.py, app.py)\<close>

text \<open>
  The program reads the PostgreSQL catalog through SQL queries and assembles
  \<open>CREATE TABLE\<close> statements and a per-schema snapshot in Python. The embedding has
  three layers:
  \<^item> the catalog relations the queries read, as lists of rows;
  \<^item> every SQL statement of the source as a function over these relations (joins as
    list comprehensions, \<open>ORDER BY\<close> as a stable sort on the ordering key);
  \<^item> the Python code around the queries, with exceptions as \<open>Inl\<close> values and the
    sequence of statements sent to the server recorded next to every result.

  Text columns of type \<open>name\<close> and \<open>"char"\<close> compare bytewise, which is the
  lexicographic order on \<open>string\<close> and the code order on \<open>char\<close>.
\<close>

subsection \<open>Catalog relations\<close>

record pg_namespace_row =
  nsp_oid :: nat
  nspname :: string

record pg_class_row =
  rel_oid :: nat
  relname :: string
  relnamespace :: nat
  relkind :: char
  relpartbound_expr :: "string option"
    \<comment> \<open>\<open>pg_get_expr(relpartbound, oid, true)\<close>: the bound text, NULL for a non-partition\<close>

record pg_attribute_row =
  attrelid :: nat
  attnum :: int
  attname :: string
  atttype_text :: string
    \<comment> \<open>\<open>pg_catalog.format_type(atttypid, atttypmod)\<close>\<close>
  attnotnull :: bool
  attisdropped :: bool
  attidentity :: string
    \<comment> \<open>\<open>''\<close>, \<open>'a'\<close> (ALWAYS) or \<open>'d'\<close> (BY DEFAULT)\<close>

record pg_attrdef_row =
  adrelid :: nat
  adnum :: int
  adbin_expr :: "string option"
    \<comment> \<open>\<open>pg_get_expr(adbin, adrelid)\<close>\<close>

record pg_constraint_row =
  conrelid :: nat
  conname :: string
  contype :: char
  condef :: string
    \<comment> \<open>\<open>pg_get_constraintdef(oid, true)\<close>\<close>

record pg_partitioned_table_row =
  partrelid :: nat
  partstrat :: char
  partattrs :: "int list"

record pg_inherits_row =
  inhrelid :: nat
  inhparent :: nat

record pg_proc_row =
  proname :: string
  pronamespace :: nat

record information_schema_tables_row =
  is_table_schema :: string
  is_table_name :: string
  is_table_type :: string

record pg_indexes_row =
  schemaname :: string
  tablename :: string
  indexname :: string
  indexdef :: string

record catalog =
  pg_namespace :: "pg_namespace_row list"
  pg_class :: "pg_class_row list"
  pg_attribute :: "pg_attribute_row list"
  pg_attrdef :: "pg_attrdef_row list"
  pg_constraint :: "pg_constraint_row list"
  pg_partitioned_table :: "pg_partitioned_table_row list"
  pg_inherits :: "pg_inherits_row list"
  pg_proc :: "pg_proc_row list"
  information_schema_tables :: "information_schema_tables_row list"
  pg_indexes :: "pg_indexes_row list"

subsection \<open>Exceptions, statements and the connection\<close>

datatype error =
  ValueError string
  | DatabaseError string
  | KeyError string


fun str_error :: "error \<Rightarrow> string" where
  "str_error (ValueError m) = m"
| "str_error (DatabaseError m) = m"
| "str_error (KeyError k) = [CHR 0x27] @ k @ [CHR 0x27]"

text \<open>One constructor for every SQL statement of the source, with its parameters.\<close>

datatype query =
  Q_tabledef_available
  | Q_pg_get_tabledef string
  | Q_table_exists string string
  | Q_columns string string
  | Q_constraints string string
  | Q_list_tables string
  | Q_indexes string
  | Q_partitioned_parents string
  | Q_inherits string

text \<open>
  The connection: the catalog it reads, the engine's native dump function (present on
  Redshift-like engines only, so it is a parameter), and the statements the server
  rejects (connectivity loss, permission denial) with the message of the raised
  \<open>psycopg2\<close> error.
\<close>

record database =
  catalog :: catalog
  pg_get_tabledef :: "string \<Rightarrow> string option"
  fails :: "query \<Rightarrow> string option"

text \<open>
  A computation returns the statements it sent, in order, and either the raised
  exception or its value.
\<close>

type_synonym 'a io = "query list \<times> (error + 'a)"

definition ret :: "'a \<Rightarrow> 'a io" where
  "ret x = ([], Inr x)"

definition raise :: "error \<Rightarrow> 'a io" where
  "raise e = ([], Inl e)"

definition bind :: "'a io \<Rightarrow> ('a \<Rightarrow> 'b io) \<Rightarrow> 'b io" where
  "bind m f =
     (case snd m of
        Inl e \<Rightarrow> (fst m, Inl e)
      | Inr x \<Rightarrow> (fst m @ fst (f x), snd (f x)))"

text \<open>
  \<open>execute\<close> (and \<open>cur.execute\<close> with \<open>fetchall\<close> in app.py): the statement is sent;
  a server-side failure raises, otherwise the rows of the statement are returned.
\<close>

definition execute :: "database \<Rightarrow> query \<Rightarrow> (error + 'a) \<Rightarrow> 'a io" where
  "execute db q rows =
     ([q], case fails db q of Some m \<Rightarrow> Inl (DatabaseError m) | None \<Rightarrow> rows)"

definition fetchone :: "'a list \<Rightarrow> 'a option" where
  "fetchone rows = (case rows of [] \<Rightarrow> None | r # _ \<Rightarrow> Some r)"

subsection \<open>The SQL statements of aws\_db.py\<close>

text \<open>
  A statement parameter compared with a column of type \<open>name\<close> (\<open>nspname\<close>,
  \<open>relname\<close>, \<open>schemaname\<close>, and the \<open>sql_identifier\<close> columns of
  \<open>information_schema.tables\<close>) is cast to \<open>name\<close> by the server, which keeps its
  first 63 bytes (\<open>NAMEDATALEN - 1\<close>) and drops the rest. So a name of 64 bytes finds
  the relation named by its first 63.
\<close>

definition pg_name :: "string \<Rightarrow> string" where
  "pg_name param = take 63 param"

text \<open>\<open>SELECT COUNT(*) FROM pg_proc p JOIN pg_namespace n ... WHERE p.proname = 'pg_get_tabledef'\<close>\<close>

definition tabledef_available_query :: "catalog \<Rightarrow> nat" where
  "tabledef_available_query cat =
     length [p . p \<leftarrow> pg_proc cat, n \<leftarrow> pg_namespace cat,
               nsp_oid n = pronamespace p, proname p = ''pg_get_tabledef'']"

text \<open>\<open>SELECT 1 FROM information_schema.tables WHERE table_schema=%s AND table_name=%s AND table_type='BASE TABLE'\<close>\<close>

definition table_exists_query :: "catalog \<Rightarrow> string \<Rightarrow> string \<Rightarrow> nat list" where
  "table_exists_query cat schema table_name =
     [1 . t \<leftarrow> information_schema_tables cat,
          is_table_schema t = pg_name schema \<and> is_table_name t = pg_name table_name
            \<and> is_table_type t = ''BASE TABLE'']"

text \<open>\<open>SELECT table_name FROM information_schema.tables WHERE ... ORDER BY table_name\<close>\<close>

definition list_tables_query :: "catalog \<Rightarrow> string \<Rightarrow> string list" where
  "list_tables_query cat schema =
     sort [is_table_name t . t \<leftarrow> information_schema_tables cat,
             is_table_schema t = pg_name schema \<and> is_table_type t = ''BASE TABLE'']"

text \<open>
  The column statement: \<open>pg_attribute\<close> joined with \<open>pg_class\<close> and \<open>pg_namespace\<close>,
  left-joined with \<open>pg_attrdef\<close>, ordered by \<open>attnum\<close>.
\<close>

type_synonym column_row = "int \<times> string \<times> string \<times> bool \<times> string option \<times> string"

definition left_join :: "'a list \<Rightarrow> 'a option list" where
  "left_join matches = (if matches = [] then [None] else map Some matches)"

definition columns_query :: "catalog \<Rightarrow> string \<Rightarrow> string \<Rightarrow> column_row list" where
  "columns_query cat schema table_name =
     sort_key fst
       [(attnum a, attname a, atttype_text a, attnotnull a,
         (case ad of None \<Rightarrow> None | Some d \<Rightarrow> adbin_expr d), attidentity a) .
          a \<leftarrow> pg_attribute cat,
          c \<leftarrow> pg_class cat, rel_oid c = attrelid a,
          n \<leftarrow> pg_namespace cat, nsp_oid n = relnamespace c,
          ad \<leftarrow> left_join [d . d \<leftarrow> pg_attrdef cat,
                               adrelid d = attrelid a \<and> adnum d = attnum a],
          (relkind c = CHR ''r'' \<or> relkind c = CHR ''p'')
            \<and> attnum a > 0 \<and> \<not> attisdropped a
            \<and> nspname n = pg_name schema \<and> relname c = pg_name table_name]"

text \<open>
  The constraint statement. The scalar subquery yields NULL when no relation has this
  name (then no row qualifies), and the server rejects it when it yields two rows.
  \<open>ORDER BY contype DESC, conname\<close>: descending code of the one-byte \<open>contype\<close>, then
  the name ascending.
\<close>

type_synonym constraint_row = "string \<times> char \<times> string"

definition constraint_order_key :: "pg_constraint_row \<Rightarrow> int \<times> string" where
  "constraint_order_key k = (- int (of_char (contype k)), conname k)"

definition constraints_query :: "catalog \<Rightarrow> string \<Rightarrow> string \<Rightarrow> error + constraint_row list" where
  "constraints_query cat schema table_name =
     (case [rel_oid c . c \<leftarrow> pg_class cat, n \<leftarrow> pg_namespace cat,
              nsp_oid n = relnamespace c,
              nspname n = pg_name schema \<and> relname c = pg_name table_name] of
        [] \<Rightarrow> Inr []
      | [oid] \<Rightarrow>
          Inr (map (\<lambda>k. (conname k, contype k, condef k))
                 (sort_key constraint_order_key
                    [k . k \<leftarrow> pg_constraint cat, conrelid k = oid]))
      | _ \<Rightarrow> Inl (DatabaseError
                 ''more than one row returned by a subquery used as an expression''))"

subsection \<open>table\_schema\<close>

text \<open>
  \<open>sql.Identifier(name).as_string(conn)\<close> of psycopg2: the name in double quotes, every
  double quote inside doubled.
\<close>

definition quote_ident :: "string \<Rightarrow> string" where
  "quote_ident s =
     [CHR 0x22] @ concat (map (\<lambda>c. if c = CHR 0x22 then [c, c] else [c]) s) @ [CHR 0x22]"

text \<open>\<open>sep.join(parts)\<close> and \<open>s.rstrip(";")\<close>.\<close>

fun join :: "string \<Rightarrow> string list \<Rightarrow> string" where
  "join sep [] = []"
| "join sep [x] = x"
| "join sep (x # y # ys) = x @ sep @ join sep (y # ys)"

definition rstrip_semicolon :: "string \<Rightarrow> string" where
  "rstrip_semicolon s = rev (dropWhile (\<lambda>c. c = CHR '';'') (rev s))"

text \<open>\<open>_redshift_pg_get_tabledef_available\<close>: \<open>bool(row and row[0] > 0)\<close>.\<close>

definition redshift_pg_get_tabledef_available :: "database \<Rightarrow> bool io" where
  "redshift_pg_get_tabledef_available db =
     bind (execute db Q_tabledef_available (Inr [tabledef_available_query (catalog db)]))
       (\<lambda>rows. ret (case fetchone rows of None \<Rightarrow> False | Some c \<Rightarrow> c > 0))"

text \<open>The body of the loop over \<open>cols\<close>: the parts of one column line.\<close>

definition column_parts :: "column_row \<Rightarrow> string list" where
  "column_parts col =
     (case col of (_, name, dtype, not_null, default_expr, identity_kind) \<Rightarrow>
        [quote_ident name, dtype]
        @ (if identity_kind = ''a'' \<or> identity_kind = ''d''
           then [if identity_kind = ''a'' then ''GENERATED ALWAYS AS IDENTITY''
                 else ''GENERATED BY DEFAULT AS IDENTITY'']
           else (case default_expr of
                   None \<Rightarrow> []
                 | Some e \<Rightarrow> if e \<noteq> [] then [''DEFAULT '' @ e] else []))
        @ (if not_null then [''NOT NULL''] else []))"

definition column_line :: "column_row \<Rightarrow> string" where
  "column_line col = join '' '' (column_parts col)"

definition constraint_line :: "constraint_row \<Rightarrow> string" where
  "constraint_line k =
     (case k of (name, _, definition_text) \<Rightarrow>
        ''CONSTRAINT '' @ quote_ident name @ '' '' @ definition_text)"

definition create_stmt :: "string \<Rightarrow> string \<Rightarrow> string list \<Rightarrow> string" where
  "create_stmt schema table_name col_lines =
     ''CREATE TABLE '' @ quote_ident schema @ ''.'' @ quote_ident table_name
     @ '' ('' @ [CHR 0x0A] @ ''  ''
     @ join ('','' @ [CHR 0x0A] @ ''  '') col_lines
     @ [CHR 0x0A] @ '');''"

text \<open>Lines 148 to 232 of \<open>table_schema\<close>: the reconstruction from the catalog.\<close>

definition table_schema_reconstruct :: "database \<Rightarrow> string \<Rightarrow> string \<Rightarrow> string io" where
  "table_schema_reconstruct db table_name schema =
     bind (execute db (Q_table_exists schema table_name)
             (Inr (table_exists_query (catalog db) schema table_name)))
       (\<lambda>rows.
          case fetchone rows of
            None \<Rightarrow> raise (ValueError (''Table '' @ schema @ ''.'' @ table_name
                                        @ '' does not exist.''))
          | Some _ \<Rightarrow>
              bind (execute db (Q_columns schema table_name)
                      (Inr (columns_query (catalog db) schema table_name)))
                (\<lambda>cols.
                   bind (execute db (Q_constraints schema table_name)
                           (constraints_query (catalog db) schema table_name))
                     (\<lambda>constraints.
                        ret (create_stmt schema table_name
                               (map column_line cols @ map constraint_line constraints)))))"

text \<open>
  \<open>table_schema\<close>: the native dump when the probe finds the function and it returns
  non-empty text, the reconstruction otherwise.
\<close>

definition table_schema :: "database \<Rightarrow> string \<Rightarrow> string \<Rightarrow> string io" where
  "table_schema db table_name schema =
     bind (redshift_pg_get_tabledef_available db)
       (\<lambda>available.
          if available
          then bind (execute db (Q_pg_get_tabledef (schema @ ''.'' @ table_name))
                       (Inr [pg_get_tabledef db (schema @ ''.'' @ table_name)]))
                 (\<lambda>rows.
                    case fetchone rows of
                      Some (Some text) \<Rightarrow>
                        if text \<noteq> [] then ret (rstrip_semicolon text @ '';'')
                        else table_schema_reconstruct db table_name schema
                    | _ \<Rightarrow> table_schema_reconstruct db table_name schema)
          else table_schema_reconstruct db table_name schema)"

subsection \<open>list\_tables and list\_table\_schemas\<close>

text \<open>\<open>list_tables\<close>: \<open>[r[0] for r in rows] if rows else []\<close>.\<close>

definition list_tables :: "database \<Rightarrow> string \<Rightarrow> string list io" where
  "list_tables db schema =
     bind (execute db (Q_list_tables schema) (Inr (list_tables_query (catalog db) schema)))
       (\<lambda>rows. ret (if rows \<noteq> [] then rows else []))"

text \<open>
  A Python \<open>dict\<close> is an association list in insertion order; storing under a key that
  is present replaces the value in place (\<open>AList.update\<close>). The dict comprehension
  \<open>{t: self.table_schema(t, schema=schema) for t in tables}\<close> calls \<open>table_schema\<close>
  table by table; an exception leaves the comprehension.
\<close>

fun table_schemas_of ::
  "database \<Rightarrow> string \<Rightarrow> string list \<Rightarrow> (string \<times> string) list \<Rightarrow> (string \<times> string) list io"
where
  "table_schemas_of db schema [] mapping = ret mapping"
| "table_schemas_of db schema (t # ts) mapping =
     bind (table_schema db t schema)
       (\<lambda>ddl. table_schemas_of db schema ts (AList.update t ddl mapping))"

definition list_table_schemas :: "database \<Rightarrow> string \<Rightarrow> (string \<times> string) list io" where
  "list_table_schemas db schema =
     bind (list_tables db schema) (\<lambda>tables. table_schemas_of db schema tables [])"

subsection \<open>The SQL statements of app.py\<close>

text \<open>\<open>SELECT tablename, indexname, indexdef FROM pg_indexes WHERE schemaname = %s ORDER BY tablename, indexname\<close>\<close>

type_synonym index_row = "string \<times> string \<times> string"

definition indexes_query :: "catalog \<Rightarrow> string \<Rightarrow> index_row list" where
  "indexes_query cat schema =
     map (\<lambda>r. (tablename r, indexname r, indexdef r))
       (sort_key (\<lambda>r. (tablename r, indexname r))
          [r . r \<leftarrow> pg_indexes cat, schemaname r = pg_name schema])"

text \<open>
  The statement for partitioned parents. The common table expression \<open>part\<close> first,
  then its join with \<open>pg_class\<close> (by name), \<open>pg_namespace\<close>,
  \<open>unnest(p.partattrs) WITH ORDINALITY AS pa(attnum, ord)\<close> and \<open>pg_attribute\<close>;
  \<open>GROUP BY p.tablename, p.strategy\<close> with \<open>array_agg(a.attname ORDER BY a.attnum)\<close>,
  \<open>ORDER BY p.tablename\<close>.
\<close>

definition strategy_name :: "char \<Rightarrow> string option" where
  "strategy_name c =
     (if c = CHR ''l'' then Some ''LIST''
      else if c = CHR ''r'' then Some ''RANGE''
      else if c = CHR ''h'' then Some ''HASH''
      else None)"

definition part_cte :: "catalog \<Rightarrow> string \<Rightarrow> (string \<times> string option \<times> int list) list" where
  "part_cte cat schema =
     [(relname c, strategy_name (partstrat pt), partattrs pt) .
        pt \<leftarrow> pg_partitioned_table cat,
        c \<leftarrow> pg_class cat, rel_oid c = partrelid pt,
        n \<leftarrow> pg_namespace cat, nsp_oid n = relnamespace c,
        nspname n = pg_name schema]"

text \<open>One joined row: table name, strategy, \<open>pa.ord\<close>, \<open>a.attnum\<close>, \<open>a.attname\<close>.\<close>

definition part_joined ::
  "catalog \<Rightarrow> string \<Rightarrow> (string \<times> string option \<times> nat \<times> int \<times> string) list"
where
  "part_joined cat schema =
     [(tname, strat, ord, attnum a, attname a) .
        (tname, strat, attrs) \<leftarrow> part_cte cat schema,
        c \<leftarrow> pg_class cat, relname c = tname,
        n \<leftarrow> pg_namespace cat,
        nsp_oid n = relnamespace c \<and> nspname n = pg_name schema,
        (pa_attnum, ord) \<leftarrow> zip attrs [1 ..< Suc (length attrs)],
        a \<leftarrow> pg_attribute cat, attrelid a = rel_oid c \<and> attnum a = pa_attnum]"

type_synonym parent_row = "string \<times> string option \<times> string list option"

definition partitioned_parents_query :: "catalog \<Rightarrow> string \<Rightarrow> parent_row list" where
  "partitioned_parents_query cat schema =
     (let joined = part_joined cat schema
      in map (\<lambda>(tname, strat).
                (tname, strat,
                 Some (map (\<lambda>(_, _, _, _, aname). aname)
                         (sort_key (\<lambda>(_, _, _, anum, _). anum)
                            [j . j \<leftarrow> joined, fst j = tname \<and> fst (snd j) = strat]))))
           (sort_key fst (remdups (map (\<lambda>(tname, strat, _). (tname, strat)) joined))))"

text \<open>
  The statement for children: \<open>pg_inherits\<close> joined with the child and parent relations
  and their namespaces, \<open>ORDER BY parent.relname, child.relname\<close>.
\<close>

type_synonym inherits_row = "string \<times> string \<times> string option"

definition inherits_query :: "catalog \<Rightarrow> string \<Rightarrow> inherits_row list" where
  "inherits_query cat schema =
     sort_key (\<lambda>(p, c, _). (p, c))
       [(relname par, relname child, relpartbound_expr child) .
          i \<leftarrow> pg_inherits cat,
          child \<leftarrow> pg_class cat, rel_oid child = inhrelid i,
          par \<leftarrow> pg_class cat, rel_oid par = inhparent i,
          np \<leftarrow> pg_namespace cat, nsp_oid np = relnamespace par,
          nc \<leftarrow> pg_namespace cat, nsp_oid nc = relnamespace child,
          nspname np = pg_name schema \<and> nspname nc = pg_name schema]"

subsection \<open>api\_table\_schemas\<close>

record index_entry =
  index_name :: string
  index_def :: string

record partition_child =
  child_name :: string
  child_bounds :: string

text \<open>
  The per-table partition dict. Its keys are fixed, so it is a record of options:
  \<open>None\<close> is an absent key. \<open>strategy\<close> can be present with the value \<open>None\<close>.
\<close>

record partition_info =
  is_partitioned :: "bool option"
  strategy :: "string option option"
  key_columns :: "string list option"
  children :: "partition_child list option"
  is_partition :: "bool option"
  parent :: "string option"
  bounds :: "string option"

definition empty_info :: partition_info where
  "empty_info =
     \<lparr>is_partitioned = None, strategy = None, key_columns = None, children = None,
      is_partition = None, parent = None, bounds = None\<rparr>"

record snapshot =
  snap_schema :: string
  snap_tables :: "string list"
  snap_ddl :: "(string \<times> string) list"
  snap_indexes :: "(string \<times> index_entry list) list"
  snap_partitions :: "(string \<times> partition_info) list"

text \<open>\<open>jsonify(...)\<close> with status 200, or \<open>jsonify({"error": str(e)}), 400\<close>.\<close>

datatype response =
  is_Json200: Json200 (the_snapshot: snapshot)
  | Json400 (error_message: string)

text \<open>A dict comprehension \<open>{k: v for ... in xs}\<close> without effects.\<close>

definition dict_of :: "('k \<times> 'v) list \<Rightarrow> ('k \<times> 'v) list" where
  "dict_of items = fold (\<lambda>(k, v). AList.update k v) items []"

text \<open>The loop over the index rows.\<close>

definition index_step :: "index_row \<Rightarrow> (string \<times> index_entry list) list \<Rightarrow> (string \<times> index_entry list) list" where
  "index_step row indexes =
     (case row of (tname, iname, idef) \<Rightarrow>
        (case map_of indexes tname of
           None \<Rightarrow> indexes
         | Some entries \<Rightarrow>
             AList.update tname (entries @ [\<lparr>index_name = iname, index_def = idef\<rparr>]) indexes))"

text \<open>The loop over the partitioned parents.\<close>

definition parent_step :: "parent_row \<Rightarrow> (string \<times> partition_info) list \<Rightarrow> (string \<times> partition_info) list" where
  "parent_step row partitions =
     (case row of (tname, strat, kcols) \<Rightarrow>
        (case map_of partitions tname of
           None \<Rightarrow> partitions
         | Some info \<Rightarrow>
             AList.update tname
               (info\<lparr>is_partitioned := Some True,
                     strategy := Some strat,
                     key_columns := Some (case kcols of None \<Rightarrow> [] | Some ks \<Rightarrow> if ks \<noteq> [] then ks else []),
                     children := Some []\<rparr>)
               partitions))"

text \<open>
  The loop over the parent/child rows. \<open>partitions[parent]["children"]\<close> raises
  \<open>KeyError\<close> when the key is absent.
\<close>

definition or_empty :: "string option \<Rightarrow> string" where
  "or_empty b = (case b of None \<Rightarrow> [] | Some s \<Rightarrow> if s \<noteq> [] then s else [])"

definition child_step :: "inherits_row \<Rightarrow> (string \<times> partition_info) list \<Rightarrow> error + (string \<times> partition_info) list" where
  "child_step row partitions =
     (case row of (par, child, bnds) \<Rightarrow>
        (case
           (case map_of partitions par of
              None \<Rightarrow> Inr partitions
            | Some info \<Rightarrow>
                (let info1 =
                       (if is_partitioned info \<noteq> Some True
                        then info\<lparr>is_partitioned := Some True, strategy := Some None,
                                  key_columns := Some [], children := Some []\<rparr>
                        else info)
                 in case children info1 of
                      None \<Rightarrow> Inl (KeyError ''children'')
                    | Some cs \<Rightarrow>
                        Inr (AList.update par
                               (info1\<lparr>children :=
                                   Some (cs @ [\<lparr>child_name = child, child_bounds = or_empty bnds\<rparr>])\<rparr>)
                               partitions)))
         of
           Inl e \<Rightarrow> Inl e
         | Inr partitions1 \<Rightarrow>
             (case map_of partitions1 child of
                None \<Rightarrow> Inr partitions1
              | Some info \<Rightarrow>
                  Inr (AList.update child
                         (info\<lparr>is_partition := Some True, parent := Some par,
                               bounds := Some (or_empty bnds)\<rparr>)
                         partitions1))))"

fun child_loop :: "inherits_row list \<Rightarrow> (string \<times> partition_info) list \<Rightarrow> error + (string \<times> partition_info) list" where
  "child_loop [] partitions = Inr partitions"
| "child_loop (row # rows) partitions =
     (case child_step row partitions of
        Inl e \<Rightarrow> Inl e
      | Inr partitions1 \<Rightarrow> child_loop rows partitions1)"

text \<open>The body of the \<open>try\<close> block.\<close>

definition api_table_schemas_try :: "database \<Rightarrow> string \<Rightarrow> snapshot io" where
  "api_table_schemas_try db schema =
     bind (list_table_schemas db schema)
       (\<lambda>mapping.
          let ordered_items = sort_key fst mapping;
              table_names = map fst ordered_items;
              indexes0 = dict_of (map (\<lambda>t. (t, [])) table_names);
              partitions0 = dict_of (map (\<lambda>t. (t, empty_info)) table_names)
          in
          bind (execute db (Q_indexes schema) (Inr (indexes_query (catalog db) schema)))
            (\<lambda>index_rows.
               let indexes = fold index_step index_rows indexes0 in
               bind (execute db (Q_partitioned_parents schema)
                       (Inr (partitioned_parents_query (catalog db) schema)))
                 (\<lambda>parent_rows.
                    let partitions1 = fold parent_step parent_rows partitions0 in
                    bind (execute db (Q_inherits schema)
                            (Inr (inherits_query (catalog db) schema)))
                      (\<lambda>rows.
                         bind ([], child_loop rows partitions1)
                           (\<lambda>partitions.
                              ret \<lparr>snap_schema = schema,
                                   snap_tables = table_names,
                                   snap_ddl = dict_of ordered_items,
                                   snap_indexes = indexes,
                                   snap_partitions = partitions\<rparr>)))))"

definition api_table_schemas :: "database \<Rightarrow> string \<Rightarrow> query list \<times> response" where
  "api_table_schemas db schema =
     (case api_table_schemas_try db schema of
        (sent, Inl e) \<Rightarrow> (sent, Json400 (str_error e))
      | (sent, Inr snap) \<Rightarrow> (sent, Json200 snap))"

subsection \<open>Predicates used to state the properties\<close>

text \<open>
  The order of \<open>ORDER BY contype DESC, conname\<close> on the rows the statement returns:
  a row may come before another when its \<open>contype\<close> byte is larger, or equal with a
  name that is not larger.
\<close>

definition emitted_before :: "constraint_row \<Rightarrow> constraint_row \<Rightarrow> bool" where
  "emitted_before a b \<longleftrightarrow>
     fst (snd b) < fst (snd a) \<or> (fst (snd a) = fst (snd b) \<and> fst a \<le> fst b)"

text \<open>The two identity clauses, and a clause that starts with \<open>DEFAULT\<close>.\<close>

definition is_identity_clause :: "string \<Rightarrow> bool" where
  "is_identity_clause part \<longleftrightarrow>
     part = ''GENERATED ALWAYS AS IDENTITY'' \<or> part = ''GENERATED BY DEFAULT AS IDENTITY''"

definition is_default_clause :: "string \<Rightarrow> bool" where
  "is_default_clause part \<longleftrightarrow> take 8 part = ''DEFAULT ''"

text \<open>
  What the loop over the parent/child rows does to the entry of one table \<open>k\<close>: the
  projection of \<open>child_step\<close> on that key.
\<close>

definition add_child :: "string \<Rightarrow> string option \<Rightarrow> partition_info \<Rightarrow> partition_info" where
  "add_child child bnds info =
     (let info0 =
            (if is_partitioned info \<noteq> Some True
             then info\<lparr>is_partitioned := Some True, strategy := Some None,
                       key_columns := Some [], children := Some []\<rparr>
             else info)
      in info0\<lparr>children :=
            Some (the (children info0)
                  @ [\<lparr>child_name = child, child_bounds = or_empty bnds\<rparr>])\<rparr>)"

definition mark_child :: "string \<Rightarrow> string option \<Rightarrow> partition_info \<Rightarrow> partition_info" where
  "mark_child par bnds info =
     info\<lparr>is_partition := Some True, parent := Some par, bounds := Some (or_empty bnds)\<rparr>"

definition child_step_at :: "string \<Rightarrow> inherits_row \<Rightarrow> partition_info \<Rightarrow> partition_info" where
  "child_step_at k row info =
     (case row of (par, child, bnds) \<Rightarrow>
        (let info1 = (if par = k then add_child child bnds info else info)
         in if child = k then mark_child par bnds info1 else info1))"

text \<open>The entries on which \<open>partitions[parent]["children"]\<close> finds its key.\<close>

definition children_ready :: "(string \<times> partition_info) list \<Rightarrow> bool" where
  "children_ready partitions \<longleftrightarrow>
     (\<forall>k info. map_of partitions k = Some info \<longrightarrow> is_partitioned info = Some True
        \<longrightarrow> children info \<noteq> None)"

text \<open>The children a table has in the parent/child rows, as the loop lists them.\<close>

definition children_of :: "string \<Rightarrow> inherits_row list \<Rightarrow> partition_child list" where
  "children_of k rows =
     map (\<lambda>(par, child, bnds). \<lparr>child_name = child, child_bounds = or_empty bnds\<rparr>)
       (filter (\<lambda>(par, child, bnds). par = k) rows)"

text \<open>The entries the loop over the index rows appends for one table.\<close>

definition indexes_of :: "string \<Rightarrow> index_row list \<Rightarrow> index_entry list" where
  "indexes_of t rows =
     map (\<lambda>(tname, iname, idef). \<lparr>index_name = iname, index_def = idef\<rparr>)
       (filter (\<lambda>(tname, iname, idef). tname = t) rows)"

subsection \<open>Example catalogs\<close>

text \<open>
  A PostgreSQL database with schema \<open>public\<close>: table \<open>users\<close> (identity column whose
  catalog row also carries a default, a primary key, a unique and a check constraint,
  two indexes), table \<open>events\<close> partitioned by \<open>RANGE (b, a)\<close> with the partitions
  \<open>events_1\<close> and \<open>events_2\<close>, and table \<open>notes\<close> without index or partition.
\<close>

definition demo_catalog :: catalog where
  "demo_catalog =
     \<lparr>pg_namespace =
        [\<lparr>nsp_oid = 1, nspname = ''pg_catalog''\<rparr>, \<lparr>nsp_oid = 2, nspname = ''public''\<rparr>],
      pg_class =
        [\<lparr>rel_oid = 10, relname = ''users'', relnamespace = 2, relkind = CHR ''r'',
          relpartbound_expr = None\<rparr>,
         \<lparr>rel_oid = 20, relname = ''events'', relnamespace = 2, relkind = CHR ''p'',
          relpartbound_expr = None\<rparr>,
         \<lparr>rel_oid = 21, relname = ''events_1'', relnamespace = 2, relkind = CHR ''r'',
          relpartbound_expr = Some ''FOR VALUES FROM (0, 0) TO (10, 10)''\<rparr>,
         \<lparr>rel_oid = 22, relname = ''events_2'', relnamespace = 2, relkind = CHR ''r'',
          relpartbound_expr = Some ''FOR VALUES FROM (10, 10) TO (20, 20)''\<rparr>,
         \<lparr>rel_oid = 30, relname = ''notes'', relnamespace = 2, relkind = CHR ''r'',
          relpartbound_expr = None\<rparr>],
      pg_attribute =
        [\<lparr>attrelid = 10, attnum = 1, attname = ''id'', atttype_text = ''bigint'',
          attnotnull = True, attisdropped = False, attidentity = ''d''\<rparr>,
         \<lparr>attrelid = 10, attnum = 2, attname = ''email'', atttype_text = ''text'',
          attnotnull = False, attisdropped = False, attidentity = []\<rparr>,
         \<lparr>attrelid = 20, attnum = 1, attname = ''a'', atttype_text = ''integer'',
          attnotnull = True, attisdropped = False, attidentity = []\<rparr>,
         \<lparr>attrelid = 20, attnum = 2, attname = ''b'', atttype_text = ''integer'',
          attnotnull = True, attisdropped = False, attidentity = []\<rparr>,
         \<lparr>attrelid = 21, attnum = 1, attname = ''a'', atttype_text = ''integer'',
          attnotnull = True, attisdropped = False, attidentity = []\<rparr>,
         \<lparr>attrelid = 21, attnum = 2, attname = ''b'', atttype_text = ''integer'',
          attnotnull = True, attisdropped = False, attidentity = []\<rparr>,
         \<lparr>attrelid = 22, attnum = 1, attname = ''a'', atttype_text = ''integer'',
          attnotnull = True, attisdropped = False, attidentity = []\<rparr>,
         \<lparr>attrelid = 22, attnum = 2, attname = ''b'', atttype_text = ''integer'',
          attnotnull = True, attisdropped = False, attidentity = []\<rparr>,
         \<lparr>attrelid = 30, attnum = 1, attname = ''body'', atttype_text = ''text'',
          attnotnull = False, attisdropped = False, attidentity = []\<rparr>],
      pg_attrdef =
        [\<lparr>adrelid = 10, adnum = 1, adbin_expr = Some ''nextval(1)''\<rparr>,
         \<lparr>adrelid = 10, adnum = 2, adbin_expr = Some ''now()''\<rparr>],
      pg_constraint =
        [\<lparr>conrelid = 10, conname = ''users_pkey'', contype = CHR ''p'',
          condef = ''PRIMARY KEY (id)''\<rparr>,
         \<lparr>conrelid = 10, conname = ''users_email_key'', contype = CHR ''u'',
          condef = ''UNIQUE (email)''\<rparr>,
         \<lparr>conrelid = 10, conname = ''users_id_check'', contype = CHR ''c'',
          condef = ''CHECK (id > 0)''\<rparr>],
      pg_partitioned_table = [\<lparr>partrelid = 20, partstrat = CHR ''r'', partattrs = [2, 1]\<rparr>],
      pg_inherits = [\<lparr>inhrelid = 21, inhparent = 20\<rparr>, \<lparr>inhrelid = 22, inhparent = 20\<rparr>],
      pg_proc = [],
      information_schema_tables =
        [\<lparr>is_table_schema = ''public'', is_table_name = ''users'',
          is_table_type = ''BASE TABLE''\<rparr>,
         \<lparr>is_table_schema = ''public'', is_table_name = ''events'',
          is_table_type = ''BASE TABLE''\<rparr>,
         \<lparr>is_table_schema = ''public'', is_table_name = ''events_1'',
          is_table_type = ''BASE TABLE''\<rparr>,
         \<lparr>is_table_schema = ''public'', is_table_name = ''events_2'',
          is_table_type = ''BASE TABLE''\<rparr>,
         \<lparr>is_table_schema = ''public'', is_table_name = ''notes'',
          is_table_type = ''BASE TABLE''\<rparr>],
      pg_indexes =
        [\<lparr>schemaname = ''public'', tablename = ''users'', indexname = ''users_pkey'',
          indexdef = ''CREATE UNIQUE INDEX users_pkey ON public.users USING btree (id)''\<rparr>,
         \<lparr>schemaname = ''public'', tablename = ''users'', indexname = ''users_email_key'',
          indexdef = ''CREATE UNIQUE INDEX users_email_key ON public.users USING btree (email)''\<rparr>]\<rparr>"

definition demo_db :: database where
  "demo_db = \<lparr>catalog = demo_catalog, pg_get_tabledef = (\<lambda>_. None), fails = (\<lambda>_. None)\<rparr>"

text \<open>
  The same catalog on an engine that offers \<open>pg_get_tabledef\<close> and dumps \<open>users\<close>
  with two trailing semicolons.
\<close>

definition redshift_db :: database where
  "redshift_db =
     \<lparr>catalog = demo_catalog\<lparr>pg_proc := [\<lparr>proname = ''pg_get_tabledef'', pronamespace = 1\<rparr>]\<rparr>,
      pg_get_tabledef =
        (\<lambda>q. if q = ''public.users'' then Some ''CREATE TABLE public.users (id bigint);;''
             else None),
      fails = (\<lambda>_. None)\<rparr>"

text \<open>The same database when the server drops the column statement for \<open>events_2\<close>.\<close>

definition failing_db :: database where
  "failing_db =
     \<lparr>catalog = demo_catalog, pg_get_tabledef = (\<lambda>_. None),
      fails = (\<lambda>q. if q = Q_columns ''public'' ''events_2''
                    then Some ''server closed the connection unexpectedly'' else None)\<rparr>"

section \<open>Properties\<close>

subsection \<open>Sequencing\<close>

lemma bind_Inl [simp]: "bind (sent, Inl e) f = (sent, Inl e)"
  by (simp add: bind_def)

lemma bind_Inr [simp]: "bind (sent, Inr x) f = (sent @ fst (f x), snd (f x))"
  by (simp add: bind_def)

lemma bind_ret [simp]: "bind (ret x) f = f x"
  by (simp add: ret_def)

lemma snd_bind_Inr:
  "snd (bind m f) = Inr y \<longleftrightarrow> (\<exists>x. snd m = Inr x \<and> snd (f x) = Inr y)"
  by (cases m; cases "snd m") (auto simp: bind_def)

lemma snd_bind_Inl:
  "snd (bind m f) = Inl e \<longleftrightarrow> snd m = Inl e \<or> (\<exists>x. snd m = Inr x \<and> snd (f x) = Inl e)"
  by (cases m; cases "snd m") (auto simp: bind_def)

lemma snd_execute:
  "snd (execute db q rows) = (case fails db q of Some m \<Rightarrow> Inl (DatabaseError m) | None \<Rightarrow> rows)"
  by (simp add: execute_def)

lemma fst_execute [simp]: "fst (execute db q rows) = [q]"
  by (simp add: execute_def)

subsection \<open>Column lines\<close>

text \<open>
  C3. Among the clauses of a column line after its name and type there is never both
  an identity clause and a \<open>DEFAULT\<close> clause. With identity kind \<open>a\<close> or \<open>d\<close> the
  identity clause is there and the line is the one of the same column without default
  expression; a \<open>DEFAULT\<close> clause is there exactly when the identity kind is neither
  and the default expression is present and non-empty.
\<close>

theorem identity_takes_precedence_over_default:
  "\<not> ((\<exists>c \<in> set (drop 2 (column_parts (n, name, dtype, nn, dflt, ik))). is_identity_clause c)
       \<and> (\<exists>c \<in> set (drop 2 (column_parts (n, name, dtype, nn, dflt, ik))). is_default_clause c))
   \<and> (ik = ''a'' \<or> ik = ''d'' \<longrightarrow>
        (\<exists>c \<in> set (drop 2 (column_parts (n, name, dtype, nn, dflt, ik))). is_identity_clause c)
        \<and> column_line (n, name, dtype, nn, dflt, ik) = column_line (n, name, dtype, nn, None, ik))
   \<and> ((\<exists>c \<in> set (drop 2 (column_parts (n, name, dtype, nn, dflt, ik))). is_default_clause c)
        \<longleftrightarrow> ik \<noteq> ''a'' \<and> ik \<noteq> ''d'' \<and> (\<exists>e. dflt = Some e \<and> e \<noteq> []))"
  by (cases dflt)
     (auto simp: column_parts_def column_line_def is_identity_clause_def is_default_clause_def)

theorem identity_takes_precedence_over_default_witness:
  "column_line (1, ''id'', ''bigint'', True, Some ''nextval(1)'', ''d'')
     = column_line (1, ''id'', ''bigint'', True, None, ''d'')
   \<and> \<not> (\<exists>c \<in> set (drop 2 (column_parts (1, ''id'', ''bigint'', True, Some ''nextval(1)'', ''d''))).
          is_default_clause c)
   \<and> (\<exists>c \<in> set (drop 2 (column_parts (2, ''email'', ''text'', False, Some ''now()'', []))).
          is_default_clause c)"
  using identity_takes_precedence_over_default
          [of 1 "''id''" "''bigint''" True "Some ''nextval(1)''" "''d''"]
        identity_takes_precedence_over_default
          [of 2 "''email''" "''text''" False "Some ''now()''" "[]"]
  by simp

subsection \<open>table\_schema\<close>

lemma table_schema_reconstruct_Inr:
  "snd (table_schema_reconstruct db t s) = Inr ddl \<longleftrightarrow>
     fails db (Q_table_exists s t) = None \<and> table_exists_query (catalog db) s t \<noteq> []
     \<and> fails db (Q_columns s t) = None \<and> fails db (Q_constraints s t) = None
     \<and> (\<exists>cons. constraints_query (catalog db) s t = Inr cons
           \<and> ddl = create_stmt s t (map column_line (columns_query (catalog db) s t)
                                     @ map constraint_line cons))"
  by (auto simp: table_schema_reconstruct_def snd_bind_Inr snd_execute fetchone_def ret_def
        raise_def split: option.splits list.splits)

lemma available_snd:
  "snd (redshift_pg_get_tabledef_available db) =
     (case fails db Q_tabledef_available of
        Some m \<Rightarrow> Inl (DatabaseError m)
      | None \<Rightarrow> Inr (tabledef_available_query (catalog db) > 0))"
  by (simp add: redshift_pg_get_tabledef_available_def bind_def execute_def fetchone_def ret_def
        split: option.splits)

lemma available_fst: "fst (redshift_pg_get_tabledef_available db) = [Q_tabledef_available]"
  by (simp add: redshift_pg_get_tabledef_available_def bind_def execute_def fetchone_def ret_def
        split: option.splits)

lemma table_schema_Inr_cases:
  assumes "snd (table_schema db t s) = Inr ddl"
  shows "(tabledef_available_query (catalog db) > 0
          \<and> (\<exists>text. pg_get_tabledef db (s @ ''.'' @ t) = Some text \<and> text \<noteq> []
                \<and> ddl = rstrip_semicolon text @ '';''))
         \<or> snd (table_schema_reconstruct db t s) = Inr ddl"
  using assms
  by (auto simp: table_schema_def snd_bind_Inr available_snd snd_execute fetchone_def ret_def
        split: option.splits if_splits)

lemma rstrip_semicolon_last:
  "rstrip_semicolon text = [] \<or> last (rstrip_semicolon text) \<noteq> CHR '';''"
proof (cases "dropWhile (\<lambda>c. c = CHR '';'') (rev text)")
  case Nil
  then show ?thesis by (simp add: rstrip_semicolon_def)
next
  case (Cons c cs)
  then have "c \<noteq> CHR '';''"
    using hd_dropWhile [of "\<lambda>c. c = CHR '';''" "rev text"] by auto
  with Cons show ?thesis by (simp add: rstrip_semicolon_def)
qed

text \<open>
  C10. Every text \<open>table_schema\<close> returns ends with a semicolon: on the native path it
  is the dump with its trailing semicolons stripped and one appended, on the
  reconstruction path it ends with a newline and \<open>);\<close>.
\<close>

theorem ddl_ends_with_semicolon:
  assumes "snd (table_schema db t s) = Inr ddl"
  shows "ddl \<noteq> [] \<and> last ddl = CHR '';''
         \<and> ((\<exists>text. pg_get_tabledef db (s @ ''.'' @ t) = Some text
                \<and> ddl = rstrip_semicolon text @ '';''
                \<and> (rstrip_semicolon text = [] \<or> last (rstrip_semicolon text) \<noteq> CHR '';''))
            \<or> (\<exists>body. ddl = body @ [CHR 0x0A] @ '');''))"
  using table_schema_Inr_cases [OF assms] rstrip_semicolon_last
  by (auto simp: table_schema_reconstruct_Inr create_stmt_def)

text \<open>
  C4. When the probe finds the native function and the function returns non-empty text,
  \<open>table_schema\<close> returns that text with its trailing semicolons replaced by one, and
  the probe and the dump are the only statements it sends: no existence check, no column
  or constraint statement.
\<close>

theorem native_dump_is_returned:
  assumes "fails db Q_tabledef_available = None"
    and "tabledef_available_query (catalog db) > 0"
    and "fails db (Q_pg_get_tabledef (s @ ''.'' @ t)) = None"
    and "pg_get_tabledef db (s @ ''.'' @ t) = Some text"
    and "text \<noteq> []"
  shows "table_schema db t s =
           ([Q_tabledef_available, Q_pg_get_tabledef (s @ ''.'' @ t)],
            Inr (rstrip_semicolon text @ '';''))"
  using assms
  by (simp add: table_schema_def redshift_pg_get_tabledef_available_def bind_def execute_def
        fetchone_def ret_def)


theorem ddl_ends_with_semicolon_witness:
  "last ''CREATE TABLE public.users (id bigint);'' = CHR '';''"
proof -
  have h: "snd (table_schema redshift_db ''users'' ''public'')
             = Inr ''CREATE TABLE public.users (id bigint);''"
    by code_simp
  from ddl_ends_with_semicolon [OF h] show ?thesis by simp
qed

theorem native_dump_is_returned_witness:
  "table_schema redshift_db ''users'' ''public'' =
     ([Q_tabledef_available, Q_pg_get_tabledef ''public.users''],
      Inr ''CREATE TABLE public.users (id bigint);'')"
proof -
  have h1: "fails redshift_db Q_tabledef_available = None"
    and h2: "tabledef_available_query (catalog redshift_db) > 0"
    and h3: "fails redshift_db (Q_pg_get_tabledef (''public'' @ ''.'' @ ''users'')) = None"
    and h4: "pg_get_tabledef redshift_db (''public'' @ ''.'' @ ''users'')
               = Some ''CREATE TABLE public.users (id bigint);;''"
    and h5: "''CREATE TABLE public.users (id bigint);;'' \<noteq> []"
    and h6: "rstrip_semicolon ''CREATE TABLE public.users (id bigint);;''
               = ''CREATE TABLE public.users (id bigint)''"
    by code_simp+
  from native_dump_is_returned [OF h1 h2 h3 h4 h5] h6 show ?thesis by simp
qed


text \<open>
  The existence statement reads its parameters as names: only their first 63 bytes
  count. A name of 64 letters \<open>t\<close> finds the base table named by 63 of them, and
  \<open>table_schema\<close> goes on to the column statement instead of raising.
\<close>

lemma pg_name_idem: "pg_name (pg_name param) = pg_name param"
  by (simp add: pg_name_def)

lemma table_exists_query_pg_name:
  "table_exists_query cat s t = table_exists_query cat (pg_name s) (pg_name t)"
  by (simp add: table_exists_query_def pg_name_idem)

lemma over_long_name_finds_its_prefix:
  "table_exists_query
     (demo_catalog\<lparr>information_schema_tables :=
        [\<lparr>is_table_schema = ''public'', is_table_name = replicate 63 (CHR ''t''),
          is_table_type = ''BASE TABLE''\<rparr>]\<rparr>)
     ''public'' (replicate 64 (CHR ''t'')) = [1]"
  by (simp add: table_exists_query_def pg_name_def)

lemma over_long_name_is_reconstructed:
  "fst (table_schema
          (demo_db\<lparr>catalog := demo_catalog\<lparr>information_schema_tables :=
             [\<lparr>is_table_schema = ''public'', is_table_name = replicate 63 (CHR ''t''),
               is_table_type = ''BASE TABLE''\<rparr>]\<rparr>\<rparr>)
          (replicate 64 (CHR ''t'')) ''public'')
     = [Q_tabledef_available, Q_table_exists ''public'' (replicate 64 (CHR ''t'')),
        Q_columns ''public'' (replicate 64 (CHR ''t'')),
        Q_constraints ''public'' (replicate 64 (CHR ''t''))]"
  by (simp add: table_schema_def table_schema_reconstruct_def
        redshift_pg_get_tabledef_available_def tabledef_available_query_def
        table_exists_query_def constraints_query_def pg_name_def demo_db_def demo_catalog_def
        bind_def execute_def fetchone_def ret_def)





subsection \<open>Constraint order\<close>

lemma sorted_wrt_emitted:
  "sorted_wrt emitted_before
     (map (\<lambda>k. (conname k, contype k, condef k)) (sort_key constraint_order_key ks))"
proof -
  have "sorted (map constraint_order_key (sort_key constraint_order_key ks))"
    by (rule sorted_sort_key)
  then have "sorted_wrt (\<lambda>a b. constraint_order_key a \<le> constraint_order_key b)
               (sort_key constraint_order_key ks)"
    by (simp add: sorted_map)
  then have "sorted_wrt (\<lambda>a b. emitted_before (conname a, contype a, condef a)
                                  (conname b, contype b, condef b))
               (sort_key constraint_order_key ks)"
    by (rule sorted_wrt_mono_rel [rotated])
       (auto simp: constraint_order_key_def emitted_before_def less_char_def)
  then show ?thesis by (simp add: sorted_wrt_map)
qed

lemma constraints_query_sorted:
  "constraints_query cat s t = Inr cons \<Longrightarrow> sorted_wrt emitted_before cons"
  by (auto simp: constraints_query_def sorted_wrt_emitted split: list.splits)

lemma table_schema_with_constraints:
  assumes "Q_constraints s t \<in> set (fst (table_schema db t s))"
  shows "snd (table_schema db t s) = snd (table_schema_reconstruct db t s)"
  using assms
  by (cases "redshift_pg_get_tabledef_available db")
     (auto simp: table_schema_def bind_def execute_def fetchone_def ret_def available_fst
        redshift_pg_get_tabledef_available_def
        split: option.splits if_splits sum.splits)

text \<open>
  C1 as amended. Whenever \<open>table_schema\<close> reads the constraints and returns, the
  statement lists, after the column lines, one line per constraint row in the order of
  \<open>ORDER BY contype DESC, conname\<close>: descending \<open>contype\<close> byte (\<open>x\<close>, \<open>u\<close>, \<open>p\<close>,
  \<open>f\<close>, \<open>c\<close>), the name ascending among equal kinds. So no unique or exclusion
  constraint follows a primary key, and no foreign-key or check constraint precedes it.
\<close>

theorem constraints_emitted_by_contype_desc:
  assumes "snd (table_schema db t s) = Inr ddl"
    and "Q_constraints s t \<in> set (fst (table_schema db t s))"
  shows "\<exists>cons. constraints_query (catalog db) s t = Inr cons
           \<and> ddl = create_stmt s t (map column_line (columns_query (catalog db) s t)
                                     @ map constraint_line cons)
           \<and> sorted_wrt emitted_before cons
           \<and> (\<forall>i j. i < j \<and> j < length cons \<and> fst (snd (cons ! i)) = CHR ''p''
                  \<longrightarrow> fst (snd (cons ! j)) \<noteq> CHR ''u'' \<and> fst (snd (cons ! j)) \<noteq> CHR ''x'')
           \<and> (\<forall>i j. i < j \<and> j < length cons \<and> fst (snd (cons ! j)) = CHR ''p''
                  \<longrightarrow> fst (snd (cons ! i)) \<noteq> CHR ''f'' \<and> fst (snd (cons ! i)) \<noteq> CHR ''c'')"
proof -
  from assms have "snd (table_schema_reconstruct db t s) = Inr ddl"
    by (simp add: table_schema_with_constraints)
  then obtain cons where q: "constraints_query (catalog db) s t = Inr cons"
    and d: "ddl = create_stmt s t (map column_line (columns_query (catalog db) s t)
                                   @ map constraint_line cons)"
    by (auto simp: table_schema_reconstruct_Inr)
  have srt: "sorted_wrt emitted_before cons"
    using q by (rule constraints_query_sorted)
  have nth: "emitted_before (cons ! i) (cons ! j)" if "i < j" "j < length cons" for i j
    using srt that by (rule sorted_wrt_nth_less)
  have a: "fst (snd (cons ! j)) \<noteq> CHR ''u'' \<and> fst (snd (cons ! j)) \<noteq> CHR ''x''"
    if "i < j" "j < length cons" "fst (snd (cons ! i)) = CHR ''p''" for i j
    using nth [OF that(1,2)] that(3) by (auto simp: emitted_before_def less_char_def)
  have b: "fst (snd (cons ! i)) \<noteq> CHR ''f'' \<and> fst (snd (cons ! i)) \<noteq> CHR ''c''"
    if "i < j" "j < length cons" "fst (snd (cons ! j)) = CHR ''p''" for i j
    using nth [OF that(1,2)] that(3) by (auto simp: emitted_before_def less_char_def)
  from q d srt a b show ?thesis by blast
qed


lemma demo_users_ddl:
  \<open>table_schema demo_db ''users'' ''public'' =
     ([Q_tabledef_available, Q_table_exists ''public'' ''users'', Q_columns ''public'' ''users'',
       Q_constraints ''public'' ''users''],
      Inr ''CREATE TABLE "public"."users" (\<newline>  "id" bigint GENERATED BY DEFAULT AS IDENTITY NOT NULL,\<newline>  "email" text DEFAULT now(),\<newline>  CONSTRAINT "users_email_key" UNIQUE (email),\<newline>  CONSTRAINT "users_pkey" PRIMARY KEY (id),\<newline>  CONSTRAINT "users_id_check" CHECK (id > 0)\<newline>);'')\<close>
  by code_simp

lemma demo_users_constraints:
  "constraints_query demo_catalog ''public'' ''users'' =
     Inr [(''users_email_key'', CHR ''u'', ''UNIQUE (email)''),
          (''users_pkey'', CHR ''p'', ''PRIMARY KEY (id)''),
          (''users_id_check'', CHR ''c'', ''CHECK (id > 0)'')]"
  by code_simp

text \<open>
  C1 as stated fails: for \<open>users\<close>, with a primary key, a unique and a check
  constraint, the unique constraint is listed before the primary key.
\<close>

theorem primary_key_first_counterexample:
  \<open>snd (table_schema demo_db ''users'' ''public'') =
     Inr ''CREATE TABLE "public"."users" (\<newline>  "id" bigint GENERATED BY DEFAULT AS IDENTITY NOT NULL,\<newline>  "email" text DEFAULT now(),\<newline>  CONSTRAINT "users_email_key" UNIQUE (email),\<newline>  CONSTRAINT "users_pkey" PRIMARY KEY (id),\<newline>  CONSTRAINT "users_id_check" CHECK (id > 0)\<newline>);''
   \<and> constraints_query demo_catalog ''public'' ''users'' =
     Inr [(''users_email_key'', CHR ''u'', ''UNIQUE (email)''),
          (''users_pkey'', CHR ''p'', ''PRIMARY KEY (id)''),
          (''users_id_check'', CHR ''c'', ''CHECK (id > 0)'')]\<close>
  using demo_users_ddl demo_users_constraints by simp

theorem constraints_emitted_by_contype_desc_witness:
  "sorted_wrt emitted_before
     [(''users_email_key'', CHR ''u'', ''UNIQUE (email)''),
      (''users_pkey'', CHR ''p'', ''PRIMARY KEY (id)''),
      (''users_id_check'', CHR ''c'', ''CHECK (id > 0)'')]"
proof -
  have h1: "snd (table_schema demo_db ''users'' ''public'') = Inr (projr (snd (table_schema demo_db ''users'' ''public'')))"
    by (simp add: demo_users_ddl)
  have h2: "Q_constraints ''public'' ''users'' \<in> set (fst (table_schema demo_db ''users'' ''public''))"
    by (simp add: demo_users_ddl)
  have c: "catalog demo_db = demo_catalog"
    by (simp add: demo_db_def)
  from constraints_emitted_by_contype_desc [OF h1 h2] show ?thesis
    by (auto simp: c demo_users_constraints)
qed

subsection \<open>Partition key columns\<close>

lemma demo_parents:
  "partitioned_parents_query demo_catalog ''public'' =
     [(''events'', Some ''RANGE'', Some [''a'', ''b''])]"
  by code_simp

lemma demo_part_joined:
  "part_joined demo_catalog ''public'' =
     [(''events'', Some ''RANGE'', 1, 2, ''b''), (''events'', Some ''RANGE'', 2, 1, ''a'')]"
  by code_simp

text \<open>
  C2. \<open>events\<close> is partitioned by \<open>RANGE (b, a)\<close>: \<open>partattrs\<close> is \<open>[2, 1]\<close>, and the
  joined rows carry \<open>b\<close> at position 1 of the key and \<open>a\<close> at position 2.
  \<open>array_agg(a.attname ORDER BY a.attnum)\<close> returns the key columns as \<open>[a, b]\<close>, the
  order of the table's columns, not \<open>[b, a]\<close>, the order of the partition key.
\<close>

theorem key_columns_follow_attnum_at_demo:
  "map partattrs (pg_partitioned_table demo_catalog) = [[2, 1]]
   \<and> part_joined demo_catalog ''public'' =
       [(''events'', Some ''RANGE'', 1, 2, ''b''), (''events'', Some ''RANGE'', 2, 1, ''a'')]
   \<and> partitioned_parents_query demo_catalog ''public'' =
       [(''events'', Some ''RANGE'', Some [''a'', ''b''])]"
  using demo_parents demo_part_joined by (simp add: demo_catalog_def)

subsection \<open>Aggregation over the tables of a schema\<close>

lemma list_tables_snd:
  "snd (list_tables db s) =
     (case fails db (Q_list_tables s) of
        Some m \<Rightarrow> Inl (DatabaseError m)
      | None \<Rightarrow> Inr (list_tables_query (catalog db) s))"
  by (simp add: list_tables_def bind_def execute_def ret_def split: option.splits)

lemma table_schemas_of_Inr:
  "snd (table_schemas_of db s ts acc) = Inr m \<Longrightarrow>
     (\<forall>u \<in> set ts. \<exists>d. snd (table_schema db u s) = Inr d)
     \<and> (\<forall>t. map_of m t =
            (if t \<in> set ts
             then (case snd (table_schema db t s) of Inr d \<Rightarrow> Some d | Inl _ \<Rightarrow> None)
             else map_of acc t))
     \<and> fst ` set m = fst ` set acc \<union> set ts
     \<and> (distinct (map fst acc) \<longrightarrow> distinct (map fst m))"
proof (induction ts arbitrary: acc)
  case Nil
  then show ?case by (simp add: ret_def)
next
  case (Cons t ts)
  from Cons.prems obtain d where d: "snd (table_schema db t s) = Inr d"
    and rest: "snd (table_schemas_of db s ts (AList.update t d acc)) = Inr m"
    by (auto simp: snd_bind_Inr)
  from Cons.IH [OF rest] d show ?case
    by (auto simp: update_conv' dom_update distinct_update)
qed

lemma table_schemas_of_first_failure:
  assumes "\<forall>u \<in> set pre. \<exists>d. snd (table_schema db u s) = Inr d"
    and "snd (table_schema db t s) = Inl e"
  shows "table_schemas_of db s (pre @ t # post) acc =
           (concat (map (\<lambda>u. fst (table_schema db u s)) (pre @ [t])), Inl e)"
  using assms
proof (induction pre arbitrary: acc)
  case Nil
  then show ?case by (cases "table_schema db t s") (simp add: bind_def)
next
  case (Cons u pre)
  then obtain d where d: "snd (table_schema db u s) = Inr d" by auto
  from Cons have "table_schemas_of db s (pre @ t # post) (AList.update u d acc) =
           (concat (map (\<lambda>u. fst (table_schema db u s)) (pre @ [t])), Inl e)"
    by simp
  with d show ?case by (cases "table_schema db u s") (simp add: bind_def)
qed

lemma api_Json200_iff:
  "snd (api_table_schemas db s) = Json200 snap \<longleftrightarrow> snd (api_table_schemas_try db s) = Inr snap"
  by (cases "api_table_schemas_try db s"; cases "snd (api_table_schemas_try db s)")
     (auto simp: api_table_schemas_def)

lemma api_Json400_iff:
  "snd (api_table_schemas db s) = Json400 msg \<longleftrightarrow>
     (\<exists>e. snd (api_table_schemas_try db s) = Inl e \<and> msg = str_error e)"
  by (cases "api_table_schemas_try db s"; cases "snd (api_table_schemas_try db s)")
     (auto simp: api_table_schemas_def)

lemma api_try_list_failure:
  "snd (list_table_schemas db s) = Inl e \<Longrightarrow> api_table_schemas_try db s = (fst (list_table_schemas db s), Inl e)"
  by (cases "list_table_schemas db s") (simp add: api_table_schemas_try_def)

lemma api_try_Inr:
  "snd (api_table_schemas_try db s) = Inr snap \<longleftrightarrow>
     (\<exists>mapping ps.
        snd (list_table_schemas db s) = Inr mapping
        \<and> fails db (Q_indexes s) = None
        \<and> fails db (Q_partitioned_parents s) = None
        \<and> fails db (Q_inherits s) = None
        \<and> child_loop (inherits_query (catalog db) s)
             (fold parent_step (partitioned_parents_query (catalog db) s)
                (dict_of (map (\<lambda>t. (t, empty_info)) (map fst (sort_key fst mapping))))) = Inr ps
        \<and> snap = \<lparr>snap_schema = s,
                   snap_tables = map fst (sort_key fst mapping),
                   snap_ddl = dict_of (sort_key fst mapping),
                   snap_indexes = fold index_step (indexes_query (catalog db) s)
                      (dict_of (map (\<lambda>t. (t, [])) (map fst (sort_key fst mapping)))),
                   snap_partitions = ps\<rparr>)"
  by (auto simp: api_table_schemas_try_def snd_bind_Inr snd_execute ret_def Let_def
        split: option.splits)

lemma map_insort_key: "map f (insort_key f x xs) = insort (f x) (map f xs)"
  by (induction xs) simp_all

lemma map_sort_key: "map f (sort_key f xs) = sort (map f xs)"
  by (induction xs) (simp_all add: map_insort_key)

lemma distinct_keys_sort_key:
  "distinct (map fst (sort_key fst m)) = distinct (map fst m)"
  by (simp add: map_sort_key)

lemma update_fresh: "k \<notin> fst ` set al \<Longrightarrow> AList.update k v al = al @ [(k, v)]"
  by (induction al) auto

lemma fold_update_distinct:
  "distinct (map fst (acc @ xs)) \<Longrightarrow>
     fold (\<lambda>(k, v). AList.update k v) xs acc = acc @ xs"
proof (induction xs arbitrary: acc)
  case Nil
  then show ?case by simp
next
  case (Cons x xs)
  obtain k v where x: "x = (k, v)" by (cases x)
  from Cons.prems x have fresh: "k \<notin> fst ` set acc" by auto
  from Cons.prems x have "distinct (map fst ((acc @ [(k, v)]) @ xs))" by auto
  from Cons.IH [OF this] fresh x show ?case by (simp add: update_fresh)
qed

lemma dict_of_distinct: "distinct (map fst xs) \<Longrightarrow> dict_of xs = xs"
  using fold_update_distinct [of "[]" xs] by (simp add: dict_of_def)

lemma list_table_schemas_Inr:
  assumes "snd (list_table_schemas db s) = Inr m"
  shows "snd (list_tables db s) = Inr (list_tables_query (catalog db) s)
         \<and> fst ` set m = set (list_tables_query (catalog db) s)
         \<and> distinct (map fst m)
         \<and> (\<forall>u \<in> set (list_tables_query (catalog db) s).
               \<exists>d. snd (table_schema db u s) = Inr d \<and> map_of m u = Some d)"
proof -
  from assms obtain ts where ts: "snd (list_tables db s) = Inr ts"
    and m: "snd (table_schemas_of db s ts []) = Inr m"
    by (auto simp: list_table_schemas_def snd_bind_Inr)
  from ts have eq: "ts = list_tables_query (catalog db) s"
    by (auto simp: list_tables_snd split: option.splits)
  from table_schemas_of_Inr [OF m] ts eq show ?thesis
    by (auto split: sum.splits)
qed

text \<open>
  C6. In \<open>list_table_schemas\<close> and \<open>api_table_schemas\<close> the first table whose
  \<open>table_schema\<close> raises ends the operation: no statement is sent for a later table,
  \<open>list_table_schemas\<close> raises that exception and \<open>api_table_schemas\<close> answers 400 with
  its message. A mapping is returned only when \<open>table_schema\<close> succeeded for every
  listed table, and then it holds the statement of each of them.
\<close>

theorem first_failure_aborts_aggregation:
  "(snd (list_tables db s) = Inr (pre @ t # post)
      \<and> (\<forall>u \<in> set pre. \<exists>d. snd (table_schema db u s) = Inr d)
      \<and> snd (table_schema db t s) = Inl e
    \<longrightarrow> list_table_schemas db s =
          (fst (list_tables db s) @ concat (map (\<lambda>u. fst (table_schema db u s)) (pre @ [t])),
           Inl e)
        \<and> api_table_schemas db s =
          (fst (list_tables db s) @ concat (map (\<lambda>u. fst (table_schema db u s)) (pre @ [t])),
           Json400 (str_error e)))
   \<and> (snd (list_table_schemas db s) = Inr m
    \<longrightarrow> fst ` set m = set (list_tables_query (catalog db) s)
        \<and> (\<forall>u \<in> set (list_tables_query (catalog db) s).
              \<exists>d. snd (table_schema db u s) = Inr d \<and> map_of m u = Some d))
   \<and> (snd (api_table_schemas db s) = Json200 snap
    \<longrightarrow> set (snap_tables snap) = set (list_tables_query (catalog db) s)
        \<and> (\<forall>u \<in> set (list_tables_query (catalog db) s).
              \<exists>d. snd (table_schema db u s) = Inr d \<and> map_of (snap_ddl snap) u = Some d))"
proof (intro conjI impI)
  assume a: "snd (list_tables db s) = Inr (pre @ t # post)
      \<and> (\<forall>u \<in> set pre. \<exists>d. snd (table_schema db u s) = Inr d)
      \<and> snd (table_schema db t s) = Inl e"
  then have f: "table_schemas_of db s (pre @ t # post) [] =
      (concat (map (\<lambda>u. fst (table_schema db u s)) (pre @ [t])), Inl e)"
    by (intro table_schemas_of_first_failure) auto
  with a show l: "list_table_schemas db s =
          (fst (list_tables db s) @ concat (map (\<lambda>u. fst (table_schema db u s)) (pre @ [t])),
           Inl e)"
    by (cases "list_tables db s") (simp add: list_table_schemas_def)
  then show "api_table_schemas db s =
          (fst (list_tables db s) @ concat (map (\<lambda>u. fst (table_schema db u s)) (pre @ [t])),
           Json400 (str_error e))"
    using api_try_list_failure [of db s e] by (simp add: api_table_schemas_def)
next
  assume "snd (list_table_schemas db s) = Inr m"
  from list_table_schemas_Inr [OF this]
  show "fst ` set m = set (list_tables_query (catalog db) s)"
    and "\<forall>u \<in> set (list_tables_query (catalog db) s).
              \<exists>d. snd (table_schema db u s) = Inr d \<and> map_of m u = Some d"
    by auto
next
  assume "snd (api_table_schemas db s) = Json200 snap"
  then obtain m where m: "snd (list_table_schemas db s) = Inr m"
    and tabs: "snap_tables snap = map fst (sort_key fst m)"
    and ddl: "snap_ddl snap = dict_of (sort_key fst m)"
    by (auto simp: api_Json200_iff api_try_Inr)
  note L = list_table_schemas_Inr [OF m]
  from L have dm: "distinct (map fst m)" by simp
  then have ds: "distinct (map fst (sort_key fst m))" by (simp add: distinct_keys_sort_key)
  have "map_of (sort_key fst m) = map_of m"
    using dm ds by (simp add: map_of_inject_set)
  with ddl ds have mo: "map_of (snap_ddl snap) = map_of m" by (simp add: dict_of_distinct)
  from L tabs show "set (snap_tables snap) = set (list_tables_query (catalog db) s)"
    by simp
  from L have "\<forall>u \<in> set (list_tables_query (catalog db) s).
              \<exists>d. snd (table_schema db u s) = Inr d \<and> map_of m u = Some d"
    by blast
  then show "\<forall>u \<in> set (list_tables_query (catalog db) s).
              \<exists>d. snd (table_schema db u s) = Inr d \<and> map_of (snap_ddl snap) u = Some d"
    by (simp only: mo)
qed


lemma failing_list:
  "list_tables failing_db ''public'' =
     ([Q_list_tables ''public''], Inr ([''events'', ''events_1''] @ ''events_2'' # [''notes'', ''users'']))"
  by code_simp

lemma failing_events: "\<not> isl (snd (table_schema failing_db ''events'' ''public''))"
  by code_simp

lemma failing_events_1: "\<not> isl (snd (table_schema failing_db ''events_1'' ''public''))"
  by code_simp

lemma failing_events_2:
  "table_schema failing_db ''events_2'' ''public'' =
     ([Q_tabledef_available, Q_table_exists ''public'' ''events_2'', Q_columns ''public'' ''events_2''],
      Inl (DatabaseError ''server closed the connection unexpectedly''))"
  by code_simp

lemma not_isl_Inr: "\<not> isl x \<Longrightarrow> \<exists>d. x = Inr d"
  by (cases x) simp_all

theorem first_failure_aborts_aggregation_witness:
  "snd (list_table_schemas failing_db ''public'')
     = Inl (DatabaseError ''server closed the connection unexpectedly'')
   \<and> snd (api_table_schemas failing_db ''public'')
     = Json400 ''server closed the connection unexpectedly''"
proof -
  have h1: "snd (list_tables failing_db ''public'')
              = Inr ([''events'', ''events_1''] @ ''events_2'' # [''notes'', ''users''])"
    by (simp add: failing_list)
  have h2: "\<forall>u \<in> set [''events'', ''events_1''].
              \<exists>d. snd (table_schema failing_db u ''public'') = Inr d"
    using failing_events failing_events_1 by (simp add: not_isl_Inr)
  have h3: "snd (table_schema failing_db ''events_2'' ''public'')
              = Inl (DatabaseError ''server closed the connection unexpectedly'')"
    by (simp add: failing_events_2)
  from first_failure_aborts_aggregation
         [of failing_db "''public''" "[''events'', ''events_1'']" "''events_2''"
             "[''notes'', ''users'']" "DatabaseError ''server closed the connection unexpectedly''"]
       h1 h2 h3
  show ?thesis by simp
qed

subsection \<open>Indexes\<close>

lemma index_step_keys: "map fst (index_step row ix) = map fst ix"
  by (cases row)
     (auto simp: index_step_def update_keys map_of_eq_None_iff split: option.splits)

lemma index_step_lookup:
  "map_of (index_step row ix) t =
     map_option (\<lambda>l. l @ indexes_of t [row]) (map_of ix t)"
  by (cases row) (auto simp: index_step_def indexes_of_def update_conv' split: option.splits)

lemma indexes_of_Cons: "indexes_of t (row # rows) = indexes_of t [row] @ indexes_of t rows"
  by (simp add: indexes_of_def)

lemma index_fold_keys: "map fst (fold index_step rows ix) = map fst ix"
  by (induction rows arbitrary: ix) (simp_all add: index_step_keys)

lemma index_fold_lookup:
  "map_of (fold index_step rows ix) t =
     map_option (\<lambda>l. l @ indexes_of t rows) (map_of ix t)"
proof (induction rows arbitrary: ix)
  case Nil
  then show ?case by (simp add: indexes_of_def option.map_ident)
next
  case (Cons row rows)
  show ?case
    by (simp add: Cons.IH index_step_lookup option.map_comp comp_def
          indexes_of_Cons [of t row rows])
qed

lemma indexes_query_sorted:
  "sorted (map (\<lambda>(tname, iname, idef). (tname, iname)) (indexes_query cat s))"
proof -
  have "sorted (map (\<lambda>r. (tablename r, indexname r))
                  (sort_key (\<lambda>r. (tablename r, indexname r))
                     [r . r \<leftarrow> pg_indexes cat, schemaname r = pg_name s]))"
    by (rule sorted_sort_key)
  then show ?thesis by (simp add: indexes_query_def comp_def)
qed

lemma indexes_of_sorted:
  "sorted (map index_name (indexes_of t (indexes_query cat s)))"
proof -
  let ?rows = "filter (\<lambda>(tname, iname, idef). tname = t) (indexes_query cat s)"
  have "sorted (map (\<lambda>(tname, iname, idef). (tname, iname)) ?rows)"
    using indexes_query_sorted by (rule sorted_filter)
  then have "sorted_wrt (\<lambda>a b. (case a of (tname, iname, idef) \<Rightarrow> (tname, iname))
                                \<le> (case b of (tname, iname, idef) \<Rightarrow> (tname, iname))) ?rows"
    by (simp add: sorted_map)
  then have "sorted_wrt (\<lambda>a b. fst (snd a) \<le> fst (snd b)) ?rows"
    by (rule sorted_wrt_mono_rel [rotated]) auto
  then have "sorted (map (\<lambda>r. fst (snd r)) ?rows)"
    by (simp add: sorted_map)
  moreover have "map index_name (indexes_of t (indexes_query cat s)) = map (\<lambda>r. fst (snd r)) ?rows"
    by (simp add: indexes_of_def comp_def case_prod_beta)
  ultimately show ?thesis by simp
qed

lemma indexes_of_empty:
  assumes "\<forall>r \<in> set (pg_indexes cat). schemaname r = pg_name s \<longrightarrow> tablename r \<noteq> t"
  shows "indexes_of t (indexes_query cat s) = []"
  using assms by (auto simp: indexes_of_def indexes_query_def filter_empty_conv)

lemma snapshot_tables_distinct:
  assumes "snd (list_table_schemas db s) = Inr m"
  shows "distinct (map fst (sort_key fst m))"
  using list_table_schemas_Inr [OF assms] by (simp add: distinct_keys_sort_key)

lemma dict_of_const:
  "distinct ts \<Longrightarrow> dict_of (map (\<lambda>t. (t, v)) ts) = map (\<lambda>t. (t, v)) ts"
  by (rule dict_of_distinct) (simp add: comp_def)

lemma map_of_const: "t \<in> set ts \<Longrightarrow> map_of (map (\<lambda>t. (t, v)) ts) t = Some v"
  by (induction ts) auto

text \<open>
  C7. In every snapshot the index mapping has exactly the tables of the snapshot as keys,
  which are the base tables of the schema. Each table maps to the entries of its index
  rows, in the order of the statement, which is by table name, then index name; so each
  list is ordered by index name, and a table without index row in the schema (the schema
  name as the server reads it) maps to the empty list.
\<close>

theorem every_table_has_an_index_entry:
  assumes "snd (api_table_schemas db s) = Json200 snap"
  shows "map fst (snap_indexes snap) = snap_tables snap
         \<and> set (snap_tables snap) = set (list_tables_query (catalog db) s)
         \<and> sorted (map (\<lambda>(tname, iname, idef). (tname, iname)) (indexes_query (catalog db) s))
         \<and> (\<forall>t \<in> set (snap_tables snap).
               map_of (snap_indexes snap) t = Some (indexes_of t (indexes_query (catalog db) s))
               \<and> sorted (map index_name (indexes_of t (indexes_query (catalog db) s)))
               \<and> ((\<forall>r \<in> set (pg_indexes (catalog db)).
                       schemaname r = pg_name s \<longrightarrow> tablename r \<noteq> t)
                    \<longrightarrow> map_of (snap_indexes snap) t = Some []))"
proof -
  from assms obtain m where m: "snd (list_table_schemas db s) = Inr m"
    and tabs: "snap_tables snap = map fst (sort_key fst m)"
    and ix: "snap_indexes snap = fold index_step (indexes_query (catalog db) s)
                (dict_of (map (\<lambda>t. (t, [])) (map fst (sort_key fst m))))"
    by (auto simp: api_Json200_iff api_try_Inr)
  have d: "distinct (snap_tables snap)"
    using snapshot_tables_distinct [OF m] tabs by simp
  have "snap_indexes snap = fold index_step (indexes_query (catalog db) s)
                (dict_of (map (\<lambda>t. (t, [])) (snap_tables snap)))"
    using ix tabs by simp
  then have ix': "snap_indexes snap = fold index_step (indexes_query (catalog db) s)
                (map (\<lambda>t. (t, [])) (snap_tables snap))"
    by (simp only: dict_of_const [OF d])
  have keys: "map fst (snap_indexes snap) = snap_tables snap"
    by (simp add: ix' index_fold_keys comp_def)
  have tabset: "set (snap_tables snap) = set (list_tables_query (catalog db) s)"
    using list_table_schemas_Inr [OF m] tabs by simp
  have look: "map_of (snap_indexes snap) t = Some (indexes_of t (indexes_query (catalog db) s))"
    if "t \<in> set (snap_tables snap)" for t
    using that by (simp add: ix' index_fold_lookup map_of_const)
  show ?thesis
    using keys tabset look indexes_query_sorted indexes_of_sorted indexes_of_empty
    by (simp add: indexes_of_empty)
qed

subsection \<open>Partitions\<close>

lemma parent_step_keys: "map fst (parent_step row ps) = map fst ps"
  by (cases row)
     (auto simp: parent_step_def update_keys map_of_eq_None_iff split: option.splits)

lemma parent_step_other:
  "fst row \<noteq> k \<Longrightarrow> map_of (parent_step row ps) k = map_of ps k"
  by (cases row) (auto simp: parent_step_def update_conv' split: option.splits)

lemma parent_step_initial:
  assumes "\<forall>k info. map_of ps k = Some info \<longrightarrow> is_partitioned info = Some True
             \<longrightarrow> children info = Some []"
    and "map_of (parent_step row ps) k = Some info"
    and "is_partitioned info = Some True"
  shows "children info = Some []"
  using assms
  by (cases row) (auto simp: parent_step_def update_conv' split: option.splits if_splits)

lemma parent_fold_keys: "map fst (fold parent_step rows ps) = map fst ps"
  by (induction rows arbitrary: ps) (simp_all add: parent_step_keys)

lemma parent_fold_other:
  "k \<notin> fst ` set rows \<Longrightarrow> map_of (fold parent_step rows ps) k = map_of ps k"
  by (induction rows arbitrary: ps) (auto simp: parent_step_other)

lemma parent_fold_initial:
  assumes "\<forall>k info. map_of ps k = Some info \<longrightarrow> is_partitioned info = Some True
             \<longrightarrow> children info = Some []"
  shows "\<forall>k info. map_of (fold parent_step rows ps) k = Some info
           \<longrightarrow> is_partitioned info = Some True \<longrightarrow> children info = Some []"
  using assms
proof (induction rows arbitrary: ps)
  case Nil
  then show ?case by simp
next
  case (Cons row rows)
  have "\<forall>k info. map_of (parent_step row ps) k = Some info
          \<longrightarrow> is_partitioned info = Some True \<longrightarrow> children info = Some []"
    using parent_step_initial [OF Cons.prems] by blast
  from Cons.IH [OF this] show ?case by simp
qed

lemma child_step_eq:
  assumes "children_ready ps"
  shows "child_step (par, child, bnds) ps =
           Inr (let ps1 = (case map_of ps par of
                             None \<Rightarrow> ps
                           | Some info \<Rightarrow> AList.update par (add_child child bnds info) ps)
                in case map_of ps1 child of
                     None \<Rightarrow> ps1
                   | Some info \<Rightarrow> AList.update child (mark_child par bnds info) ps1)"
proof (cases "map_of ps par")
  case None
  then show ?thesis
    by (simp add: child_step_def mark_child_def split: option.splits)
next
  case (Some info)
  show ?thesis
  proof (cases "is_partitioned info = Some True")
    case True
    with assms Some obtain cs where "children info = Some cs"
      by (auto simp: children_ready_def)
    with Some True show ?thesis
      by (simp add: child_step_def add_child_def mark_child_def Let_def split: option.splits)
  next
    case False
    with Some show ?thesis
      by (simp add: child_step_def add_child_def mark_child_def Let_def split: option.splits)
  qed
qed

lemma child_step_total:
  assumes "children_ready ps"
  shows "\<exists>ps'. child_step row ps = Inr ps'"
  using child_step_eq [OF assms] by (cases row) simp

lemma update_present_keys:
  assumes "map_of al k = Some v"
  shows "map fst (AList.update k v' al) = map fst al"
proof -
  from assms have "k \<in> fst ` set al"
    by (metis map_of_eq_None_iff option.distinct(1))
  then show ?thesis by (simp add: update_keys)
qed

lemma child_step_keys:
  assumes "children_ready ps" and "child_step row ps = Inr ps'"
  shows "map fst ps' = map fst ps"
proof -
  obtain par child bnds where row: "row = (par, child, bnds)" by (cases row)
  define ps1 where "ps1 = (case map_of ps par of
                             None \<Rightarrow> ps
                           | Some info \<Rightarrow> AList.update par (add_child child bnds info) ps)"
  have k1: "map fst ps1 = map fst ps"
    by (cases "map_of ps par") (simp_all add: ps1_def update_present_keys)
  from assms(2) have "ps' = (case map_of ps1 child of
                     None \<Rightarrow> ps1
                   | Some info \<Rightarrow> AList.update child (mark_child par bnds info) ps1)"
    unfolding row child_step_eq [OF assms(1)] ps1_def Let_def by simp
  then have "map fst ps' = map fst ps1"
    by (cases "map_of ps1 child") (simp_all add: update_present_keys)
  with k1 show ?thesis by simp
qed

lemma child_step_lookup:
  assumes "children_ready ps" and "child_step row ps = Inr ps'"
  shows "map_of ps' k = map_option (child_step_at k row) (map_of ps k)"
proof -
  obtain par child bnds where row: "row = (par, child, bnds)" by (cases row)
  from assms(2) show ?thesis
    unfolding row child_step_eq [OF assms(1)]
    by (cases "map_of ps k")
       (auto simp: Let_def update_conv' child_step_at_def split: option.splits if_splits)
qed

lemma add_child_ready:
  "is_partitioned info = Some True \<longrightarrow> children info \<noteq> None \<Longrightarrow>
   is_partitioned (add_child c b info) = Some True \<and> children (add_child c b info) \<noteq> None"
  by (simp add: add_child_def Let_def)

lemma child_step_at_ready:
  assumes "is_partitioned info = Some True \<longrightarrow> children info \<noteq> None"
    and "is_partitioned (child_step_at k row info) = Some True"
  shows "children (child_step_at k row info) \<noteq> None"
  using assms
  by (cases row)
     (auto simp: child_step_at_def mark_child_def add_child_def Let_def split: if_splits)

lemma child_step_ready:
  assumes "children_ready ps" and "child_step row ps = Inr ps'"
  shows "children_ready ps'"
  unfolding children_ready_def
proof (intro allI impI)
  fix k info'
  assume l: "map_of ps' k = Some info'" and p: "is_partitioned info' = Some True"
  from l child_step_lookup [OF assms, of k] obtain info where
    i: "map_of ps k = Some info" and e: "info' = child_step_at k row info"
    by (cases "map_of ps k") auto
  from assms(1) i have "is_partitioned info = Some True \<longrightarrow> children info \<noteq> None"
    by (auto simp: children_ready_def)
  from child_step_at_ready [OF this] p e show "children info' \<noteq> None" by simp
qed

lemma child_loop_ok:
  assumes "children_ready ps"
  shows "\<exists>ps'. child_loop rows ps = Inr ps' \<and> map fst ps' = map fst ps
           \<and> (\<forall>k. map_of ps' k = map_option (fold (child_step_at k) rows) (map_of ps k))"
  using assms
proof (induction rows arbitrary: ps)
  case Nil
  then show ?case by (simp add: option.map_ident)
next
  case (Cons row rows)
  from child_step_total [OF Cons.prems] obtain ps1 where s: "child_step row ps = Inr ps1"
    by blast
  note r = child_step_ready [OF Cons.prems s]
  from Cons.IH [OF r] obtain ps' where l: "child_loop rows ps1 = Inr ps'"
    and k: "map fst ps' = map fst ps1"
    and m: "\<forall>k. map_of ps' k = map_option (fold (child_step_at k) rows) (map_of ps1 k)"
    by blast
  show ?case
    using s l k m child_step_keys [OF Cons.prems s] child_step_lookup [OF Cons.prems s]
    by (simp add: option.map_comp comp_def)
qed

lemma child_step_at_untouched:
  "par \<noteq> k \<Longrightarrow> child \<noteq> k \<Longrightarrow> child_step_at k (par, child, bnds) info = info"
  by (simp add: child_step_at_def)

lemma child_fold_untouched:
  "\<forall>(par, child, bnds) \<in> set rows. par \<noteq> k \<and> child \<noteq> k \<Longrightarrow>
     fold (child_step_at k) rows info = info"
  by (induction rows arbitrary: info) (auto simp: child_step_at_untouched)

lemma children_of_Cons:
  "children_of k ((par, child, bnds) # rows) =
     (if par = k then [\<lparr>child_name = child, child_bounds = or_empty bnds\<rparr>] else [])
     @ children_of k rows"
  by (simp add: children_of_def)

lemma child_step_at_partitioned:
  assumes "is_partitioned info = Some True" and "children info = Some cs"
  shows "is_partitioned (child_step_at k (par, child, bnds) info) = Some True
         \<and> children (child_step_at k (par, child, bnds) info)
             = Some (cs @ children_of k [(par, child, bnds)])"
  using assms
  by (simp add: child_step_at_def add_child_def mark_child_def children_of_def Let_def)

lemma child_fold_partitioned:
  assumes "is_partitioned info = Some True" and "children info = Some cs"
  shows "is_partitioned (fold (child_step_at k) rows info) = Some True
         \<and> children (fold (child_step_at k) rows info) = Some (cs @ children_of k rows)"
  using assms
proof (induction rows arbitrary: info cs)
  case Nil
  then show ?case by (simp add: children_of_def)
next
  case (Cons row rows)
  obtain par child bnds where row: "row = (par, child, bnds)" by (cases row)
  note st = child_step_at_partitioned [OF Cons.prems, of k par child bnds]
  from Cons.IH [OF conjunct1 [OF st] conjunct2 [OF st]] show ?case
    by (simp add: row children_of_Cons children_of_def)
qed

lemma child_step_at_first:
  assumes "is_partitioned info \<noteq> Some True"
  shows "is_partitioned (child_step_at k (k, child, bnds) info) = Some True
         \<and> children (child_step_at k (k, child, bnds) info)
             = Some [\<lparr>child_name = child, child_bounds = or_empty bnds\<rparr>]"
  using assms
  by (simp add: child_step_at_def add_child_def mark_child_def Let_def)

lemma child_step_at_not_parent:
  assumes "par \<noteq> k"
  shows "is_partitioned (child_step_at k (par, child, bnds) info) = is_partitioned info
         \<and> children (child_step_at k (par, child, bnds) info) = children info"
  using assms by (simp add: child_step_at_def mark_child_def)

lemma child_fold_unpartitioned:
  assumes "is_partitioned info \<noteq> Some True" and "children_of k rows \<noteq> []"
  shows "is_partitioned (fold (child_step_at k) rows info) = Some True
         \<and> children (fold (child_step_at k) rows info) = Some (children_of k rows)"
  using assms
proof (induction rows arbitrary: info)
  case Nil
  then show ?case by (simp add: children_of_def)
next
  case (Cons row rows)
  obtain par child bnds where row: "row = (par, child, bnds)" by (cases row)
  show ?case
  proof (cases "par = k")
    case True
    note st = child_step_at_first [OF Cons.prems(1), of k child bnds]
    from child_fold_partitioned [OF conjunct1 [OF st] conjunct2 [OF st], of k rows]
    show ?thesis by (simp add: row True children_of_Cons)
  next
    case False
    note st = child_step_at_not_parent [OF False, of child bnds info]
    from Cons.prems(2) False have ne: "children_of k rows \<noteq> []"
      by (simp add: row children_of_Cons)
    from st Cons.prems(1)
    have "is_partitioned (child_step_at k (par, child, bnds) info) \<noteq> Some True" by simp
    from Cons.IH [OF this ne] show ?thesis
      by (simp add: row False children_of_Cons)
  qed
qed

lemma child_step_at_marks:
  "is_partition (child_step_at k (par, k, bnds) info) = Some True
   \<and> parent (child_step_at k (par, k, bnds) info) = Some par
   \<and> bounds (child_step_at k (par, k, bnds) info) = Some (or_empty bnds)"
  by (simp add: child_step_at_def mark_child_def Let_def)

lemma child_step_at_not_child:
  assumes "child \<noteq> k"
  shows "is_partition (child_step_at k (par, child, bnds) info) = is_partition info
         \<and> parent (child_step_at k (par, child, bnds) info) = parent info
         \<and> bounds (child_step_at k (par, child, bnds) info) = bounds info"
  using assms by (simp add: child_step_at_def add_child_def Let_def)

lemma child_fold_marks:
  assumes "\<forall>(par', child', bnds') \<in> set rows. child' = k \<longrightarrow> par' = par \<and> bnds' = bnds"
    and "(is_partition info = Some True \<and> parent info = Some par
           \<and> bounds info = Some (or_empty bnds))
         \<or> (par, k, bnds) \<in> set rows"
  shows "is_partition (fold (child_step_at k) rows info) = Some True
         \<and> parent (fold (child_step_at k) rows info) = Some par
         \<and> bounds (fold (child_step_at k) rows info) = Some (or_empty bnds)"
  using assms
proof (induction rows arbitrary: info)
  case Nil
  then show ?case by simp
next
  case (Cons row rows)
  obtain p c b where row: "row = (p, c, b)" by (cases row)
  from Cons.prems(1) have u: "\<forall>(par', child', bnds') \<in> set rows.
      child' = k \<longrightarrow> par' = par \<and> bnds' = bnds" by simp
  show ?case
  proof (cases "c = k")
    case True
    with Cons.prems(1) row have pb: "p = par" "b = bnds" by auto
    have "is_partition (child_step_at k row info) = Some True
          \<and> parent (child_step_at k row info) = Some par
          \<and> bounds (child_step_at k row info) = Some (or_empty bnds)"
      using child_step_at_marks [of k par bnds info] by (simp add: row True pb)
    then show ?thesis using Cons.IH [OF u, of "child_step_at k row info"] by simp
  next
    case False
    from Cons.prems(2) False row have
      "(is_partition (child_step_at k row info) = Some True
         \<and> parent (child_step_at k row info) = Some par
         \<and> bounds (child_step_at k row info) = Some (or_empty bnds))
       \<or> (par, k, bnds) \<in> set rows"
      using child_step_at_not_child [OF False, of p b info] by auto
    then show ?thesis using Cons.IH [OF u, of "child_step_at k row info"] by simp
  qed
qed

lemma map_of_const_Some:
  "map_of (map (\<lambda>t. (t, v)) ts) k = Some w \<Longrightarrow> w = v"
  by (induction ts) (auto split: if_splits)

lemma snapshot_partitions:
  assumes "snd (api_table_schemas db s) = Json200 snap"
    and "k \<in> set (snap_tables snap)"
  shows "\<exists>info0.
           (is_partitioned info0 = Some True \<longrightarrow> children info0 = Some [])
           \<and> (k \<notin> fst ` set (partitioned_parents_query (catalog db) s) \<longrightarrow> info0 = empty_info)
           \<and> map_of (snap_partitions snap) k
               = Some (fold (child_step_at k) (inherits_query (catalog db) s) info0)"
proof -
  let ?prows = "partitioned_parents_query (catalog db) s"
  let ?rows = "inherits_query (catalog db) s"
  from assms(1) obtain m where m: "snd (list_table_schemas db s) = Inr m"
    and tabs: "snap_tables snap = map fst (sort_key fst m)"
    and loop: "child_loop ?rows
                 (fold parent_step ?prows
                    (dict_of (map (\<lambda>t. (t, empty_info)) (map fst (sort_key fst m)))))
               = Inr (snap_partitions snap)"
    by (auto simp: api_Json200_iff api_try_Inr)
  have d: "distinct (snap_tables snap)"
    using snapshot_tables_distinct [OF m] tabs by simp
  let ?init = "map (\<lambda>t. (t, empty_info)) (snap_tables snap)"
  let ?p1 = "fold parent_step ?prows ?init"
  have "child_loop ?rows (fold parent_step ?prows (dict_of ?init)) = Inr (snap_partitions snap)"
    using loop tabs by simp
  then have loop': "child_loop ?rows ?p1 = Inr (snap_partitions snap)"
    by (simp only: dict_of_const [OF d])
  have init: "\<forall>k info. map_of ?init k = Some info \<longrightarrow> is_partitioned info = Some True
                \<longrightarrow> children info = Some []"
    by (auto dest!: map_of_const_Some simp: empty_info_def)
  note p1 = parent_fold_initial [OF init, of ?prows]
  then have ready: "children_ready ?p1"
    by (auto simp: children_ready_def)
  from child_loop_ok [OF ready, of ?rows] loop'
  have look: "map_of (snap_partitions snap) k
                = map_option (fold (child_step_at k) ?rows) (map_of ?p1 k)"
    by auto
  have "k \<in> fst ` set ?p1"
    using assms(2) parent_fold_keys [of ?prows ?init]
    by (metis (no_types, lifting) list.set_map map_map comp_def fst_conv map_idI)
  then obtain info0 where i0: "map_of ?p1 k = Some info0"
    by (metis map_of_eq_None_iff option.exhaust)
  have "info0 = empty_info" if "k \<notin> fst ` set ?prows"
    using parent_fold_other [OF that, of ?init] i0 assms(2) by (simp add: map_of_const)
  with p1 i0 look show ?thesis by auto
qed


lemma snapshot_tables_set:
  assumes "snd (api_table_schemas db s) = Json200 snap"
  shows "set (snap_tables snap) = set (list_tables_query (catalog db) s)"
proof -
  from assms obtain m where m: "snd (list_table_schemas db s) = Inr m"
    and tabs: "snap_tables snap = map fst (sort_key fst m)"
    by (auto simp: api_Json200_iff api_try_Inr)
  from list_table_schemas_Inr [OF m] tabs show ?thesis by simp
qed

lemma untouched_partition_entry:
  assumes "snd (api_table_schemas db s) = Json200 snap"
    and "t \<in> set (snap_tables snap)"
    and "t \<notin> fst ` set (partitioned_parents_query (catalog db) s)"
    and "\<forall>(par, child, bnds) \<in> set (inherits_query (catalog db) s). par \<noteq> t \<and> child \<noteq> t"
  shows "map_of (snap_partitions snap) t = Some empty_info"
  using snapshot_partitions [OF assms(1,2)] assms(3) child_fold_untouched [OF assms(4)]
  by auto

lemma children_of_member:
  "(p, c, b) \<in> set rows \<Longrightarrow>
     \<lparr>child_name = c, child_bounds = or_empty b\<rparr> \<in> set (children_of p rows)"
  by (force simp: children_of_def)

text \<open>
  C8. In a snapshot, for every parent/child row whose parent and child are tables of the
  snapshot, the parent's entry is marked partitioned and lists exactly the children of
  its rows, each with its bound text (the empty string for NULL), this child among them;
  and when the rows give the child no other parent or bound (a partition has one
  parent), the child's entry carries \<open>is_partition\<close>, this parent and this bound text.
\<close>

theorem partition_links_are_symmetric:
  assumes "snd (api_table_schemas db s) = Json200 snap"
    and "(p, c, b) \<in> set (inherits_query (catalog db) s)"
    and "p \<in> set (snap_tables snap)"
    and "c \<in> set (snap_tables snap)"
    and "\<forall>(p', c', b') \<in> set (inherits_query (catalog db) s). c' = c \<longrightarrow> p' = p \<and> b' = b"
  shows "\<exists>pinfo cinfo.
           map_of (snap_partitions snap) p = Some pinfo
           \<and> is_partitioned pinfo = Some True
           \<and> children pinfo = Some (children_of p (inherits_query (catalog db) s))
           \<and> \<lparr>child_name = c, child_bounds = or_empty b\<rparr>
                \<in> set (children_of p (inherits_query (catalog db) s))
           \<and> map_of (snap_partitions snap) c = Some cinfo
           \<and> is_partition cinfo = Some True
           \<and> parent cinfo = Some p
           \<and> bounds cinfo = Some (or_empty b)"
proof -
  let ?rows = "inherits_query (catalog db) s"
  from snapshot_partitions [OF assms(1,3)] obtain p0 where
    p0: "is_partitioned p0 = Some True \<longrightarrow> children p0 = Some []"
    and pl: "map_of (snap_partitions snap) p = Some (fold (child_step_at p) ?rows p0)"
    by blast
  from snapshot_partitions [OF assms(1,4)] obtain c0 where
    cl: "map_of (snap_partitions snap) c = Some (fold (child_step_at c) ?rows c0)"
    by blast
  have mem: "\<lparr>child_name = c, child_bounds = or_empty b\<rparr> \<in> set (children_of p ?rows)"
    using assms(2) by (rule children_of_member)
  then have ne: "children_of p ?rows \<noteq> []" by auto
  have par: "is_partitioned (fold (child_step_at p) ?rows p0) = Some True
             \<and> children (fold (child_step_at p) ?rows p0) = Some (children_of p ?rows)"
  proof (cases "is_partitioned p0 = Some True")
    case True
    with p0 have "children p0 = Some []" by simp
    from child_fold_partitioned [OF True this, of p ?rows] show ?thesis by simp
  next
    case False
    from child_fold_unpartitioned [OF False ne] show ?thesis .
  qed
  have chi: "is_partition (fold (child_step_at c) ?rows c0) = Some True
             \<and> parent (fold (child_step_at c) ?rows c0) = Some p
             \<and> bounds (fold (child_step_at c) ?rows c0) = Some (or_empty b)"
    using assms(5) assms(2) by (intro child_fold_marks) auto
  from pl cl mem par chi show ?thesis by blast
qed

text \<open>
  C9 as amended. A table of the snapshot that no partitioned-parent row names and no
  parent/child row names, as parent or as child, has an entry in the partition mapping:
  the empty dict.
\<close>

theorem unpartitioned_table_maps_to_empty_info:
  assumes "snd (api_table_schemas db s) = Json200 snap"
    and "t \<in> set (snap_tables snap)"
    and "t \<notin> fst ` set (partitioned_parents_query (catalog db) s)"
    and "\<forall>(par, child, bnds) \<in> set (inherits_query (catalog db) s). par \<noteq> t \<and> child \<noteq> t"
  shows "map_of (snap_partitions snap) t = Some empty_info"
  using assms by (rule untouched_partition_entry)

lemma demo_ok: "is_Json200 (snd (api_table_schemas demo_db ''public''))"
  by code_simp

lemma demo_snapshot:
  "snd (api_table_schemas demo_db ''public'')
     = Json200 (the_snapshot (snd (api_table_schemas demo_db ''public'')))"
  using demo_ok by simp

lemma demo_tables:
  "list_tables_query demo_catalog ''public'' = [''events'', ''events_1'', ''events_2'', ''notes'', ''users'']"
  by code_simp

lemma demo_inherits:
  "inherits_query demo_catalog ''public'' =
     [(''events'', ''events_1'', Some ''FOR VALUES FROM (0, 0) TO (10, 10)''),
      (''events'', ''events_2'', Some ''FOR VALUES FROM (10, 10) TO (20, 20)'')]"
  by code_simp

lemma demo_indexes:
  "indexes_query demo_catalog ''public'' =
     [(''users'', ''users_email_key'',
       ''CREATE UNIQUE INDEX users_email_key ON public.users USING btree (email)''),
      (''users'', ''users_pkey'',
       ''CREATE UNIQUE INDEX users_pkey ON public.users USING btree (id)'')]"
  by code_simp

lemma demo_catalog_of: "catalog demo_db = demo_catalog"
  by (simp add: demo_db_def)

lemma demo_snapshot_tables:
  "set (snap_tables (the_snapshot (snd (api_table_schemas demo_db ''public''))))
     = {''events'', ''events_1'', ''events_2'', ''notes'', ''users''}"
  using snapshot_tables_set [OF demo_snapshot] by (simp add: demo_catalog_of demo_tables)

text \<open>
  C9 as stated fails: \<open>notes\<close> is neither partitioned nor a partition, and the partition
  mapping of the snapshot has the key \<open>notes\<close>, with the empty dict as its value.
\<close>

theorem unpartitioned_table_has_entry_counterexample:
  "is_Json200 (snd (api_table_schemas demo_db ''public''))
   \<and> map_of (snap_partitions (the_snapshot (snd (api_table_schemas demo_db ''public''))))
       ''notes'' = Some empty_info"
proof -
  have "map_of (snap_partitions (the_snapshot (snd (api_table_schemas demo_db ''public''))))
          ''notes'' = Some empty_info"
    by (rule untouched_partition_entry [OF demo_snapshot])
       (simp_all add: demo_snapshot_tables demo_catalog_of demo_parents demo_inherits)
  with demo_ok show ?thesis by simp
qed

theorem unpartitioned_table_maps_to_empty_info_witness:
  "map_of (snap_partitions (the_snapshot (snd (api_table_schemas demo_db ''public''))))
     ''users'' = Some empty_info"
  by (rule unpartitioned_table_maps_to_empty_info [OF demo_snapshot])
     (simp_all add: demo_snapshot_tables demo_catalog_of demo_parents demo_inherits)

theorem partition_links_are_symmetric_witness:
  "map_option children
     (map_of (snap_partitions (the_snapshot (snd (api_table_schemas demo_db ''public''))))
        ''events'')
     = Some (Some [\<lparr>child_name = ''events_1'',
                     child_bounds = ''FOR VALUES FROM (0, 0) TO (10, 10)''\<rparr>,
                   \<lparr>child_name = ''events_2'',
                     child_bounds = ''FOR VALUES FROM (10, 10) TO (20, 20)''\<rparr>])
   \<and> map_option parent
       (map_of (snap_partitions (the_snapshot (snd (api_table_schemas demo_db ''public''))))
          ''events_2'')
     = Some (Some ''events'')
   \<and> map_option bounds
       (map_of (snap_partitions (the_snapshot (snd (api_table_schemas demo_db ''public''))))
          ''events_2'')
     = Some (Some ''FOR VALUES FROM (10, 10) TO (20, 20)'')"
proof -
  have h2: "(''events'', ''events_2'', Some ''FOR VALUES FROM (10, 10) TO (20, 20)'')
              \<in> set (inherits_query (catalog demo_db) ''public'')"
    by (simp add: demo_catalog_of demo_inherits)
  have h3: "''events'' \<in> set (snap_tables (the_snapshot (snd (api_table_schemas demo_db ''public''))))"
    and h4: "''events_2'' \<in> set (snap_tables (the_snapshot (snd (api_table_schemas demo_db ''public''))))"
    by (simp_all add: demo_snapshot_tables)
  have h5: "\<forall>(p', c', b') \<in> set (inherits_query (catalog demo_db) ''public'').
              c' = ''events_2'' \<longrightarrow> p' = ''events''
                \<and> b' = Some ''FOR VALUES FROM (10, 10) TO (20, 20)''"
    by (simp add: demo_catalog_of demo_inherits)
  have k: "children_of ''events'' (inherits_query (catalog demo_db) ''public'') =
             [\<lparr>child_name = ''events_1'', child_bounds = ''FOR VALUES FROM (0, 0) TO (10, 10)''\<rparr>,
              \<lparr>child_name = ''events_2'', child_bounds = ''FOR VALUES FROM (10, 10) TO (20, 20)''\<rparr>]"
    by (simp add: demo_catalog_of demo_inherits children_of_def or_empty_def)
  from partition_links_are_symmetric [OF demo_snapshot h2 h3 h4 h5] k
  show ?thesis by (auto simp: or_empty_def)
qed

theorem every_table_has_an_index_entry_witness:
  "map_of (snap_indexes (the_snapshot (snd (api_table_schemas demo_db ''public'')))) ''notes''
     = Some []
   \<and> map_of (snap_indexes (the_snapshot (snd (api_table_schemas demo_db ''public'')))) ''users''
     = Some [\<lparr>index_name = ''users_email_key'',
               index_def = ''CREATE UNIQUE INDEX users_email_key ON public.users USING btree (email)''\<rparr>,
             \<lparr>index_name = ''users_pkey'',
               index_def = ''CREATE UNIQUE INDEX users_pkey ON public.users USING btree (id)''\<rparr>]"
  using every_table_has_an_index_entry [OF demo_snapshot]
  by (simp add: demo_snapshot_tables demo_catalog_of demo_indexes indexes_of_def)

end
